theory Spec2Isabelle
  imports Main "HOL-Library.Sublist"
begin

section \<open>Python strings\<close>

text \<open>
  A Python \<open>str\<close> is modelled as a \<open>string\<close>: a list of characters, each read as
  the Unicode code point with the same number (U+0000 to U+00FF, the Latin-1 range, which is
  also the encoding the DBF reader is opened with). The character classes below are the ones
  Python applies to these code points.
\<close>

definition code :: "char \<Rightarrow> nat" where
  "code c = of_char c"

definition is_ascii_upper :: "char \<Rightarrow> bool" where
  "is_ascii_upper c = (65 \<le> code c \<and> code c \<le> 90)"

definition is_ascii_lower :: "char \<Rightarrow> bool" where
  "is_ascii_lower c = (97 \<le> code c \<and> code c \<le> 122)"

definition is_ascii_digit :: "char \<Rightarrow> bool" where
  "is_ascii_digit c = (48 \<le> code c \<and> code c \<le> 57)"

text \<open>
  The class \<open>\s\<close> of \<open>re\<close> on a \<open>str\<close> pattern (Unicode whitespace): tab to carriage
  return, the separators U+001C to U+001F, space, U+0085 and U+00A0.
\<close>

definition is_space :: "char \<Rightarrow> bool" where
  "is_space c = ((9 \<le> code c \<and> code c \<le> 13) \<or> (28 \<le> code c \<and> code c \<le> 32)
                 \<or> code c = 133 \<or> code c = 160)"

text \<open>\<open>str.isdigit\<close>: the ASCII digits and the superscripts U+00B2, U+00B3, U+00B9.\<close>

definition isdigit :: "char \<Rightarrow> bool" where
  "isdigit c = (is_ascii_digit c \<or> code c = 178 \<or> code c = 179 \<or> code c = 185)"

text \<open>
  \<open>str.lower\<close>, character by character: A to Z, and U+00C0 to U+00DE except the
  multiplication sign U+00D7, move up by 32.
\<close>

definition lower_char :: "char \<Rightarrow> char" where
  "lower_char c =
     (if is_ascii_upper c \<or> (192 \<le> code c \<and> code c \<le> 222 \<and> code c \<noteq> 215)
      then char_of (code c + 32) else c)"

definition lower :: "string \<Rightarrow> string" where
  "lower s = map lower_char s"

text \<open>\<open>s.strip(chars)\<close> for a one-character set: drop it from both ends.\<close>

definition strip :: "char \<Rightarrow> string \<Rightarrow> string" where
  "strip u s = rev (dropWhile (\<lambda>c. c = u) (rev (dropWhile (\<lambda>c. c = u) s)))"

section \<open>Name sanitizer\<close>

text \<open>
  \<open>sanitize_name\<close> of \<open>csv_to_psql_with_data.py\<close>; the copies in the DBF and the
  spreadsheet converters are the same text.
  \<^item> \<open>re.sub(r'[^a-zA-Z0-9\s_]', '', name)\<close> keeps the characters of the class;
  \<^item> \<open>re.sub(r'[\s_]+', '_', name)\<close> replaces each maximal run of whitespace and
    underscores by one underscore.
\<close>

definition keep_char :: "char \<Rightarrow> bool" where
  "keep_char c = (is_ascii_lower c \<or> is_ascii_upper c \<or> is_ascii_digit c \<or> is_space c \<or> c = CHR ''_'')"

definition remove_special :: "string \<Rightarrow> string" where
  "remove_special s = filter keep_char s"

definition is_sep :: "char \<Rightarrow> bool" where
  "is_sep c = (is_space c \<or> c = CHR ''_'')"

function collapse_seps :: "string \<Rightarrow> string" where
  "collapse_seps [] = []"
| "collapse_seps (c # cs) =
     (if is_sep c then CHR ''_'' # collapse_seps (dropWhile is_sep cs)
      else c # collapse_seps cs)"
  by pat_completeness auto
termination
  by (relation "measure length") (auto simp: length_dropWhile_le less_Suc_eq_le)

definition sanitize_name :: "string \<Rightarrow> string" where
  "sanitize_name name0 =
     (let name1 = remove_special name0;
          name2 = collapse_seps name1;
          name3 = lower name2;
          name4 = strip (CHR ''_'') name3;
          name5 = (if name4 \<noteq> [] \<and> isdigit (hd name4) then ''t_'' @ name4 else name4)
      in if name5 \<noteq> [] then name5 else ''unnamed'')"


text \<open>
  The name after the first four steps (characters removed, runs collapsed, lowered,
  underscores stripped from the ends), before the prefix and the default are applied.
\<close>

definition name_core :: "string \<Rightarrow> string" where
  "name_core name0 = strip (CHR ''_'') (lower (collapse_seps (remove_special name0)))"

text \<open>The characters of a sanitized identifier: \<open>[a-z0-9_]\<close>.\<close>

definition is_ident_char :: "char \<Rightarrow> bool" where
  "is_ident_char c = (is_ascii_lower c \<or> is_ascii_digit c \<or> c = CHR ''_'')"

text \<open>
  The shape of every result: identifier characters only, no two underscores in a row, no
  underscore at either end.
\<close>

definition normal_name :: "string \<Rightarrow> bool" where
  "normal_name s = ((\<forall>c \<in> set s. is_ident_char c) \<and> \<not> sublist ''__'' s
                    \<and> (s \<noteq> [] \<longrightarrow> hd s \<noteq> CHR ''_'' \<and> last s \<noteq> CHR ''_''))"


section \<open>Python numbers\<close>

subsection \<open>Decimal text of integers\<close>

definition digit_char :: "int \<Rightarrow> char" where
  "digit_char d = char_of (48 + d)"

text \<open>The decimal digits of an integer that is not negative.\<close>

function digits_of :: "int \<Rightarrow> string" where
  "digits_of n = (if n < 10 then [digit_char n] else digits_of (n div 10) @ [digit_char (n mod 10)])"
  by pat_completeness auto
termination
  by (relation "measure nat") auto

declare digits_of.simps [simp del]

text \<open>\<open>str(n)\<close> for an \<open>int\<close>.\<close>

definition str_int :: "int \<Rightarrow> string" where
  "str_int i = (if i < 0 then CHR ''-'' # digits_of (- i) else digits_of i)"

definition digit_val :: "char \<Rightarrow> int" where
  "digit_val c = int (code c) - 48"

definition int_of_digits :: "string \<Rightarrow> int" where
  "int_of_digits ds = foldl (\<lambda>acc c. 10 * acc + digit_val c) 0 ds"

subsection \<open>Exact fractions\<close>

text \<open>
  A non-negative rational is kept as a pair of integers, numerator and (positive)
  denominator; comparisons are by cross multiplication, so everything below is integer
  arithmetic.
\<close>

type_synonym frac = "int \<times> int"

definition frac_le :: "frac \<Rightarrow> frac \<Rightarrow> bool" where
  "frac_le x y = (fst x * snd y \<le> fst y * snd x)"

definition frac_lt :: "frac \<Rightarrow> frac \<Rightarrow> bool" where
  "frac_lt x y = (fst x * snd y < fst y * snd x)"

definition frac_floor :: "frac \<Rightarrow> int" where
  "frac_floor x = fst x div snd x"

text \<open>\<open>ipow b n\<close> is \<open>b\<close> to the power \<open>n\<close>, by repeated squaring.\<close>

function ipow :: "int \<Rightarrow> int \<Rightarrow> int" where
  "ipow b n =
     (if n \<le> 0 then 1
      else if even n then (let h = ipow b (n div 2) in h * h)
      else b * ipow b (n - 1))"
  by pat_completeness auto
termination
  by (relation "measure (\<lambda>(b, n). nat n)") auto

declare ipow.simps [simp del]

text \<open>\<open>scaled a b i\<close> is \<open>a\<close> times \<open>b\<close> to the power \<open>i\<close>, for any integer \<open>i\<close>.\<close>

definition scaled :: "int \<Rightarrow> int \<Rightarrow> int \<Rightarrow> frac" where
  "scaled a b i = (if 0 \<le> i then (a * ipow b i, 1) else (a, ipow b (- i)))"

definition frac_div :: "frac \<Rightarrow> frac \<Rightarrow> frac" where
  "frac_div x y = (fst x * snd y, snd x * fst y)"

text \<open>Round to the nearest integer, a tie to the even one.\<close>

definition round_half_even :: "frac \<Rightarrow> int" where
  "round_half_even x =
     (let f = fst x div snd x; r = fst x mod snd x
      in if 2 * r < snd x then f
         else if snd x < 2 * r then f + 1
         else if even f then f else f + 1)"

function length_in_base :: "int \<Rightarrow> int \<Rightarrow> int" where
  "length_in_base b n = (if n \<le> 0 \<or> b < 2 then 0 else 1 + length_in_base b (n div b))"
  by pat_completeness auto
termination
proof (relation "measure (\<lambda>(b, n). nat n)")
  show "wf (measure (\<lambda>(b::int, n::int). nat n))" by simp
next
  fix b n :: int
  assume a: "\<not> (n \<le> 0 \<or> b < 2)"
  then have "n div b < n" by (intro int_div_less_self) auto
  moreover have "0 \<le> n div b" using a by (simp add: pos_imp_zdiv_nonneg_iff)
  ultimately show "((b, n div b), (b, n)) \<in> measure (\<lambda>(b, n). nat n)" by simp
qed

declare length_in_base.simps [simp del]

text \<open>
  For a positive fraction \<open>x\<close>, the integer \<open>e\<close> with \<open>b ^ e \<le> x < b ^ (e + 1)\<close>: the
  difference of the lengths of numerator and denominator in base \<open>b\<close>, or one less.
\<close>

definition floor_log :: "int \<Rightarrow> frac \<Rightarrow> int" where
  "floor_log b x =
     (let d = length_in_base b (fst x) - length_in_base b (snd x)
      in if frac_le (scaled 1 b d) x then d else d - 1)"

subsection \<open>Floats\<close>

text \<open>
  A Python \<open>float\<close> is an IEEE 754 double: not-a-number, an infinity, or a finite value
  \<open>m * 2 ^ q\<close> (\<open>m\<close> not negative) with a sign: \<open>True\<close> for negative, so that \<open>-0.0\<close> is a
  value of its own.
\<close>

datatype pyfloat = Nan | Inf bool | Fin bool int int

text \<open>
  The double nearest to a positive fraction (a tie to the even mantissa): 53 bits of
  mantissa, the exponent of the last bit no less than \<open>-1074\<close>; \<open>None\<close> when the rounded
  value reaches \<open>2 ^ 1024\<close>.
\<close>

definition round_to_double :: "frac \<Rightarrow> (int \<times> int) option" where
  "round_to_double x =
     (if fst x = 0 then Some (0, 0)
      else let q = max (floor_log 2 x - 52) (- 1074);
               m = round_half_even (frac_div x (scaled 1 2 q))
           in if frac_le (scaled 1 2 1024) (scaled m 2 q) then None else Some (m, q))"

text \<open>Mantissa and exponent of a finite double in normal form (value unchanged).\<close>

definition normal_form :: "int \<Rightarrow> int \<Rightarrow> int \<times> int" where
  "normal_form m q = (case round_to_double (scaled m 2 q) of Some mq \<Rightarrow> mq | None \<Rightarrow> (m, q))"

text \<open>
  \<open>float(s)\<close> of a decimal text with mantissa digits \<open>M\<close> and decimal exponent \<open>X\<close>: the
  nearest double, an infinity on overflow (no error is raised for text).
\<close>

definition float_of_decimal :: "bool \<Rightarrow> int \<Rightarrow> int \<Rightarrow> pyfloat" where
  "float_of_decimal neg M X =
     (case round_to_double (scaled M 10 X) of
        None \<Rightarrow> Inf neg
      | Some mq \<Rightarrow> Fin neg (fst mq) (snd mq))"

subsection \<open>\<open>repr\<close> of a float\<close>

text \<open>
  The digits of \<open>repr\<close>: the decimal \<open>c * 10 ^ k\<close> with the fewest digits that still rounds
  to the double \<open>m * 2 ^ q\<close>, and among those the nearest (a tie to the even digit).
  A decimal rounds to the double when it lies within half the gap to the neighbours; the
  bounds themselves count when the mantissa is even. Below a power of two (mantissa
  \<open>2 ^ 52\<close>, not the smallest exponent) the gap to the lower neighbour is half as wide.
  Bounds are kept in quarters of the last bit.
\<close>

definition rounds_to :: "int \<Rightarrow> int \<Rightarrow> int \<Rightarrow> int \<Rightarrow> bool" where
  "rounds_to m q c k =
     (let lo = scaled (if m = 4503599627370496 \<and> - 1074 < q then 4 * m - 1 else 4 * m - 2) 2 (q - 2);
          hi = scaled (4 * m + 2) 2 (q - 2);
          x = scaled c 10 k
      in if even m then frac_le lo x \<and> frac_le x hi else frac_lt lo x \<and> frac_lt x hi)"

text \<open>
  With \<open>n\<close> digits the candidates are the two multiples of \<open>10 ^ k\<close> around the value,
  \<open>k = E - n + 1\<close> for the decimal exponent \<open>E\<close> of the value. Seventeen digits always
  suffice.
\<close>

definition lower_candidate :: "int \<Rightarrow> int \<Rightarrow> int \<Rightarrow> int" where
  "lower_candidate m q k = frac_floor (frac_div (scaled m 2 q) (scaled 1 10 k))"

definition has_candidate :: "int \<Rightarrow> int \<Rightarrow> int \<Rightarrow> bool" where
  "has_candidate m q k =
     (rounds_to m q (lower_candidate m q k) k \<or> rounds_to m q (lower_candidate m q k + 1) k)"

definition nearest_candidate :: "int \<Rightarrow> int \<Rightarrow> int \<Rightarrow> int" where
  "nearest_candidate m q k =
     (let c1 = lower_candidate m q k;
          c2 = c1 + 1;
          twice = scaled (2 * m) 2 q;
          mid = scaled (c1 + c2) 10 k
      in if \<not> rounds_to m q c2 k then c1
         else if \<not> rounds_to m q c1 k then c2
         else if frac_lt twice mid then c1
         else if frac_lt mid twice then c2
         else if even c1 then c1 else c2)"

fun shortest_from :: "nat \<Rightarrow> int \<Rightarrow> int \<Rightarrow> int \<Rightarrow> int \<times> int" where
  "shortest_from 0 m q k = (lower_candidate m q k, k)"
| "shortest_from (Suc fuel) m q k =
     (if has_candidate m q k then (nearest_candidate m q k, k)
      else shortest_from fuel m q (k - 1))"

definition shortest_decimal :: "int \<Rightarrow> int \<Rightarrow> int \<times> int" where
  "shortest_decimal m q = shortest_from 17 m q (floor_log 10 (scaled m 2 q))"

fun strip_zeros :: "nat \<Rightarrow> int \<Rightarrow> int \<Rightarrow> int \<times> int" where
  "strip_zeros 0 c k = (c, k)"
| "strip_zeros (Suc fuel) c k =
     (if 0 < c \<and> c mod 10 = 0 then strip_zeros fuel (c div 10) (k + 1) else (c, k))"

text \<open>
  The layout of \<open>repr\<close>: with \<open>decpt\<close> the position of the decimal point, counted from the
  first digit, exponent notation when \<open>decpt \<le> -4\<close> or \<open>decpt > 16\<close> (the exponent with a sign
  and at least two digits), else positional with at least one digit after the point.
\<close>

definition exponent_text :: "int \<Rightarrow> string" where
  "exponent_text e =
     (let a = digits_of \<bar>e\<bar>
      in (if e < 0 then ''e-'' else ''e+'') @ (if length a < 2 then CHR ''0'' # a else a))"

definition layout :: "string \<Rightarrow> int \<Rightarrow> string" where
  "layout ds decpt =
     (if decpt \<le> - 4 \<or> 16 < decpt then
        (if length ds = 1 then ds else hd ds # CHR ''.'' # tl ds) @ exponent_text (decpt - 1)
      else if decpt \<le> 0 then ''0.'' @ replicate (nat (- decpt)) (CHR ''0'') @ ds
      else if int (length ds) \<le> decpt then
        ds @ replicate (nat decpt - length ds) (CHR ''0'') @ ''.0''
      else take (nat decpt) ds @ CHR ''.'' # drop (nat decpt) ds)"

definition layout_decimal :: "int \<times> int \<Rightarrow> string" where
  "layout_decimal ck = layout (digits_of (fst ck)) (int (length (digits_of (fst ck))) + snd ck)"

definition repr_finite :: "int \<times> int \<Rightarrow> string" where
  "repr_finite mq =
     layout_decimal
       (case shortest_decimal (fst mq) (snd mq) of (c, k) \<Rightarrow> strip_zeros 17 c k)"

fun str_float :: "pyfloat \<Rightarrow> string" where
  "str_float Nan = ''nan''"
| "str_float (Inf neg) = (if neg then ''-inf'' else ''inf'')"
| "str_float (Fin neg m q) =
     (if neg then ''-'' else []) @ (if m = 0 then ''0.0'' else repr_finite (normal_form m q))"

subsection \<open>\<open>float(s)\<close> of a string\<close>

text \<open>
  The whitespace \<open>float\<close> strips from both ends: tab to carriage return and space, and
  the Latin-1 spaces U+0085 and U+00A0 (which the conversion to ASCII turns into spaces).
  The separators U+001C to U+001F are not stripped.
\<close>

definition is_float_space :: "char \<Rightarrow> bool" where
  "is_float_space c = ((9 \<le> code c \<and> code c \<le> 13) \<or> code c = 32 \<or> code c = 133 \<or> code c = 160)"

text \<open>An underscore must have a digit on both sides; \<open>prev\<close> starts as the NUL character.\<close>

fun underscores_ok :: "char \<Rightarrow> string \<Rightarrow> bool" where
  "underscores_ok prev [] = (prev \<noteq> CHR ''_'')"
| "underscores_ok prev (c # cs) =
     (if c = CHR ''_'' then is_ascii_digit prev \<and> underscores_ok c cs
      else if prev = CHR ''_'' then is_ascii_digit c \<and> underscores_ok c cs
      else underscores_ok c cs)"

definition ascii_lower_char :: "char \<Rightarrow> char" where
  "ascii_lower_char c = (if is_ascii_upper c then char_of (code c + 32) else c)"

definition take_sign :: "string \<Rightarrow> bool \<times> string" where
  "take_sign s =
     (if s \<noteq> [] \<and> hd s = CHR ''-'' then (True, tl s)
      else if s \<noteq> [] \<and> hd s = CHR ''+'' then (False, tl s)
      else (False, s))"

definition parse_inf_or_nan :: "string \<Rightarrow> pyfloat option" where
  "parse_inf_or_nan s =
     (let neg = fst (take_sign s); w = map ascii_lower_char (snd (take_sign s))
      in if w = ''inf'' \<or> w = ''infinity'' then Some (Inf neg)
         else if w = ''nan'' then Some Nan
         else None)"

text \<open>
  The number itself: sign, digits, an optional point and digits (at least one digit in
  all), an optional exponent (\<open>e\<close> or \<open>E\<close>, sign, at least one digit; without a digit
  the \<open>e\<close> is left over). Text left over is an error.
\<close>

definition parse_exponent :: "string \<Rightarrow> int \<times> string" where
  "parse_exponent s =
     (if s \<noteq> [] \<and> (hd s = CHR ''e'' \<or> hd s = CHR ''E'') then
        (let neg = fst (take_sign (tl s)); r = snd (take_sign (tl s));
             ds = takeWhile is_ascii_digit r
         in if ds = [] then (0, s)
            else ((if neg then - int_of_digits ds else int_of_digits ds),
                  dropWhile is_ascii_digit r))
      else (0, s))"

definition parse_number :: "string \<Rightarrow> pyfloat option" where
  "parse_number s =
     (let neg = fst (take_sign s);
          r1 = snd (take_sign s);
          ip = takeWhile is_ascii_digit r1;
          r2 = dropWhile is_ascii_digit r1;
          has_point = (r2 \<noteq> [] \<and> hd r2 = CHR ''.'');
          fp = (if has_point then takeWhile is_ascii_digit (tl r2) else []);
          r3 = (if has_point then dropWhile is_ascii_digit (tl r2) else r2);
          ex = fst (parse_exponent r3);
          r4 = snd (parse_exponent r3)
      in if ip = [] \<and> fp = [] then parse_inf_or_nan s
         else if r4 \<noteq> [] then None
         else Some (float_of_decimal neg (int_of_digits (ip @ fp)) (ex - int (length fp))))"

definition float_from_string_inner :: "string \<Rightarrow> pyfloat option" where
  "float_from_string_inner s =
     (let t = rev (dropWhile is_float_space (rev (dropWhile is_float_space s)))
      in if t = [] then None else parse_number t)"

definition float_of_str :: "string \<Rightarrow> pyfloat option" where
  "float_of_str s =
     (if CHR ''_'' \<in> set s then
        (if underscores_ok (CHR 0x00) s then float_from_string_inner (filter (\<lambda>c. c \<noteq> CHR ''_'') s)
         else None)
      else float_from_string_inner s)"

text \<open>\<open>float(n)\<close> of an \<open>int\<close>: the nearest double; \<open>None\<close> is the OverflowError.\<close>

definition float_of_int :: "int \<Rightarrow> pyfloat option" where
  "float_of_int i =
     (case round_to_double (\<bar>i\<bar>, 1) of
        None \<Rightarrow> None
      | Some mq \<Rightarrow> Some (Fin (i < 0) (fst mq) (snd mq)))"

section \<open>Python values\<close>

text \<open>
  The scalar values a cell can hold: what \<open>pandas.read_csv\<close>, \<open>pandas.read_excel\<close> and the
  DBF reader hand to the converters. numpy scalars are not kept apart from the Python ones
  (\<open>numpy.int64\<close> and \<open>int\<close>, \<open>numpy.bool_\<close> and \<open>bool\<close>): the functions below render
  them alike. \<open>PDatetime\<close> is a \<open>datetime.datetime\<close> or a \<open>pandas.Timestamp\<close> without
  time zone, \<open>PNaT\<close> the missing timestamp, \<open>PDate\<close> a \<open>datetime.date\<close>, and \<open>POther\<close> any
  other scalar object without a conversion to \<open>float\<close> (a \<open>datetime.time\<close> of a
  spreadsheet, say), given by the text \<open>str\<close> returns for it.
\<close>

record datetime =
  year :: int
  month :: int
  day :: int
  hour :: int
  minute :: int
  second :: int
  microsecond :: int

datatype pyval =
    PNone
  | PBool bool
  | PInt int
  | PFloat pyfloat
  | PStr string
  | PDatetime datetime
  | PDate int int int
  | PNaT
  | POther string

text \<open>The exceptions raised: those of Python and \<open>psycopg2.Error\<close>.\<close>

datatype pyerr = TypeError | ValueError | OverflowError | IndexError | DatabaseError

definition pad :: "nat \<Rightarrow> int \<Rightarrow> string" where
  "pad w i = replicate (w - length (digits_of i)) (CHR ''0'') @ digits_of i"

text \<open>\<open>d.strftime('%Y-%m-%d')\<close> and \<open>d.strftime('%Y-%m-%d %H:%M:%S')\<close> (years of four digits).\<close>

definition strftime_date :: "datetime \<Rightarrow> string" where
  "strftime_date d = pad 4 (year d) @ ''-'' @ pad 2 (month d) @ ''-'' @ pad 2 (day d)"

definition strftime_datetime :: "datetime \<Rightarrow> string" where
  "strftime_datetime d =
     strftime_date d @ '' '' @ pad 2 (hour d) @ '':'' @ pad 2 (minute d) @ '':'' @ pad 2 (second d)"

text \<open>\<open>str(value)\<close>.\<close>

fun str :: "pyval \<Rightarrow> string" where
  "str PNone = ''None''"
| "str (PBool b) = (if b then ''True'' else ''False'')"
| "str (PInt i) = str_int i"
| "str (PFloat f) = str_float f"
| "str (PStr s) = s"
| "str (PDatetime d) =
     strftime_datetime d @ (if microsecond d = 0 then [] else ''.'' @ pad 6 (microsecond d))"
| "str (PDate y m d) = pad 4 y @ ''-'' @ pad 2 m @ ''-'' @ pad 2 d"
| "str PNaT = ''NaT''"
| "str (POther s) = s"

text \<open>\<open>float(value)\<close>, with the exception it raises.\<close>

fun float :: "pyval \<Rightarrow> pyerr + pyfloat" where
  "float PNone = Inl TypeError"
| "float (PBool b) = Inr (Fin False (if b then 1 else 0) 0)"
| "float (PInt i) = (case float_of_int i of None \<Rightarrow> Inl OverflowError | Some f \<Rightarrow> Inr f)"
| "float (PFloat f) = Inr f"
| "float (PStr s) = (case float_of_str s of None \<Rightarrow> Inl ValueError | Some f \<Rightarrow> Inr f)"
| "float (PDatetime d) = Inl TypeError"
| "float (PDate y m d) = Inl TypeError"
| "float PNaT = Inl TypeError"
| "float (POther s) = Inl TypeError"

text \<open>\<open>pd.isna(value)\<close> on a scalar: \<open>None\<close>, the float not-a-number and \<open>NaT\<close>.\<close>

fun isna :: "pyval \<Rightarrow> bool" where
  "isna PNone = True"
| "isna (PFloat Nan) = True"
| "isna PNaT = True"
| "isna _ = False"

fun isinstance_bool :: "pyval \<Rightarrow> bool" where
  "isinstance_bool (PBool b) = True"
| "isinstance_bool _ = False"

fun isinstance_str :: "pyval \<Rightarrow> bool" where
  "isinstance_str (PStr s) = True"
| "isinstance_str _ = False"

fun isinstance_datetime :: "pyval \<Rightarrow> bool" where
  "isinstance_datetime (PDatetime d) = True"
| "isinstance_datetime _ = False"

fun the_datetime :: "pyval \<Rightarrow> datetime" where
  "the_datetime (PDatetime d) = d"
| "the_datetime _ = \<lparr>year = 1, month = 1, day = 1, hour = 0, minute = 0, second = 0, microsecond = 0\<rparr>"

text \<open>The truth value of \<open>if value\<close>.\<close>

fun truthy :: "pyval \<Rightarrow> bool" where
  "truthy PNone = False"
| "truthy (PBool b) = b"
| "truthy (PInt i) = (i \<noteq> 0)"
| "truthy (PFloat f) = (case f of Fin neg m q \<Rightarrow> m \<noteq> 0 | _ \<Rightarrow> True)"
| "truthy (PStr s) = (s \<noteq> [])"
| "truthy _ = True"

text \<open>\<open>pd.api.types.is_numeric_dtype(type(value))\<close>: the numbers and the booleans.\<close>

fun is_numeric_type :: "pyval \<Rightarrow> bool" where
  "is_numeric_type (PBool b) = True"
| "is_numeric_type (PInt i) = True"
| "is_numeric_type (PFloat f) = True"
| "is_numeric_type _ = False"

section \<open>Value escaper\<close>

definition quote :: char where
  "quote = CHR 0x27"

text \<open>\<open>s.replace("'", "''")\<close> and the f-string \<open>f"'{s}'"\<close>.\<close>

definition double_quotes :: "string \<Rightarrow> string" where
  "double_quotes s = concat (map (\<lambda>c. if c = quote then [quote, quote] else [c]) s)"

definition quoted :: "string \<Rightarrow> string" where
  "quoted s = quote # s @ [quote]"

text \<open>
  \<open>escape_sql_value\<close> of \<open>csv_to_psql_with_data.py\<close> and of \<open>xlsx_to_psql_with_data.py\<close>
  (the same text). The operator \<open>in\<close> between two strings is the test for a contiguous
  substring; \<open>try: ... float(value) ... except:\<close> turns every exception into \<open>NULL\<close>.
\<close>

definition escape_sql_value :: "pyval \<Rightarrow> string \<Rightarrow> pyerr + string" where
  "escape_sql_value v col_type =
     (if isna v \<or> v = PNone then Inr ''NULL''
      else if col_type = ''BOOLEAN'' then
        (if isinstance_bool v then Inr (if truthy v then ''TRUE'' else ''FALSE'')
         else if lower (str v) \<in> set [''true'', ''1'', ''yes'', ''sim''] then Inr ''TRUE''
         else Inr ''FALSE'')
      else if sublist ''INTEGER'' col_type \<or> sublist ''BIGINT'' col_type \<or> col_type = ''NUMERIC'' then
        (if is_numeric_type v then Inr (str v)
         else (case float v of Inr f \<Rightarrow> Inr (str_float f) | Inl e \<Rightarrow> Inr ''NULL''))
      else if col_type = ''TIMESTAMP'' then
        (if isinstance_datetime v then Inr (quoted (strftime_datetime (the_datetime v)))
         else if isinstance_str v then Inr (quoted (str v))
         else Inr ''NULL'')
      else Inr (quoted (double_quotes (str v))))"

text \<open>
  \<open>str.upper\<close>, as code points, since three Latin-1 characters leave the range: the sharp s
  becomes \<open>SS\<close>, y with diaeresis U+0178 and the micro sign U+039C.
\<close>

definition upper_char :: "char \<Rightarrow> nat list" where
  "upper_char c =
     (if is_ascii_lower c \<or> (224 \<le> code c \<and> code c \<le> 254 \<and> code c \<noteq> 247) then [code c - 32]
      else if code c = 223 then [83, 83]
      else if code c = 255 then [376]
      else if code c = 181 then [924]
      else [code c])"

definition upper :: "string \<Rightarrow> nat list" where
  "upper s = concat (map upper_char s)"

definition points :: "string \<Rightarrow> nat list" where
  "points s = map code s"

text \<open>
  \<open>escape_sql_value\<close> of \<open>dbc_to_psql_with_data.py\<close>: the second argument is the type code
  of the DBF field (\<open>L\<close> logical, \<open>D\<close> date, \<open>T\<close> datetime, \<open>N\<close> numeric, \<open>F\<close> float).
\<close>

definition dbc_escape_sql_value :: "pyval \<Rightarrow> string \<Rightarrow> pyerr + string" where
  "dbc_escape_sql_value v field_type0 =
     (let field_type = upper field_type0
      in if v = PNone then Inr ''NULL''
         else if field_type = points ''L'' then
           (if isinstance_bool v then Inr (if truthy v then ''TRUE'' else ''FALSE'')
            else if upper (str v) \<in> set (map points [''T'', ''TRUE'', ''1'', ''Y'', ''YES'', ''S'', ''SIM''])
            then Inr ''TRUE''
            else Inr ''FALSE'')
         else if field_type = points ''D'' then
           (if isinstance_datetime v then Inr (quoted (strftime_date (the_datetime v)))
            else if isinstance_str v then Inr (quoted (str v))
            else Inr ''NULL'')
         else if field_type = points ''T'' then
           (if isinstance_datetime v then Inr (quoted (strftime_datetime (the_datetime v)))
            else if isinstance_str v then Inr (quoted (str v))
            else Inr ''NULL'')
         else if field_type \<in> set (map points [''N'', ''F'']) then
           (if v = PStr [] \<or> v = PNone then Inr ''NULL''
            else (case float v of Inr f \<Rightarrow> Inr (str_float f) | Inl e \<Rightarrow> Inr ''NULL''))
         else Inr (quoted (double_quotes (str v))))"

text \<open>
  A quoted SQL literal is well formed when it starts and ends with a quote and every quote
  in between is one of a pair.
\<close>

fun quotes_paired :: "string \<Rightarrow> bool" where
  "quotes_paired [] = True"
| "quotes_paired [c] = (c \<noteq> quote)"
| "quotes_paired (c # d # s) =
     (if c = quote then d = quote \<and> quotes_paired s else quotes_paired (d # s))"

definition well_formed_literal :: "string \<Rightarrow> bool" where
  "well_formed_literal l =
     (2 \<le> length l \<and> hd l = quote \<and> last l = quote \<and> quotes_paired (butlast (tl l)))"

text \<open>
  Two strings are equal without regard to case when they agree after the letters A to Z
  are lowered.
\<close>

definition caseless_eq :: "string \<Rightarrow> string \<Rightarrow> bool" where
  "caseless_eq a b = (map ascii_lower_char a = map ascii_lower_char b)"

text \<open>Auxiliary notions for the case-insensitive comparison.\<close>

definition ascii_upper_char :: "char \<Rightarrow> char" where
  "ascii_upper_char c = (if is_ascii_lower c then char_of (code c - 32) else c)"

fun no_double_S :: "string \<Rightarrow> bool" where
  "no_double_S (a # b # s) = (\<not> (a = CHR ''S'' \<and> b = CHR ''S'') \<and> no_double_S (b # s))"
| "no_double_S _ = True"

section \<open>Columns and frames\<close>

text \<open>
  A pandas \<open>Series\<close> is a column with one of the dtypes the readers produce: \<open>int64\<close>,
  \<open>float64\<close> (not-a-number marks a missing value), \<open>bool\<close>, \<open>datetime64\<close> (\<open>None\<close> here is
  \<open>NaT\<close>), the string dtype (\<open>None\<close> here is the missing value, handed out as
  not-a-number) and \<open>object\<close>, which holds any values. A column of text is read as an
  \<open>object\<close> column of \<open>str\<close> values, with the float not-a-number where a cell is empty, or
  as a column of string dtype: pandas 3 does the latter, pandas 2 on request. Integers are
  written as mathematical integers; only comparisons are made on them.
\<close>

datatype series =
    IntSeries "int list"
  | FloatSeries "pyfloat list"
  | BoolSeries "bool list"
  | DatetimeSeries "datetime option list"
  | StrSeries "string option list"
  | ObjectSeries "pyval list"

fun timestamp :: "datetime option \<Rightarrow> pyval" where
  "timestamp None = PNaT"
| "timestamp (Some d) = PDatetime d"

fun str_or_nan :: "string option \<Rightarrow> pyval" where
  "str_or_nan None = PFloat Nan"
| "str_or_nan (Some s) = PStr s"

text \<open>The elements of a column as Python values.\<close>

fun values_of :: "series \<Rightarrow> pyval list" where
  "values_of (IntSeries xs) = map PInt xs"
| "values_of (FloatSeries xs) = map PFloat xs"
| "values_of (BoolSeries xs) = map PBool xs"
| "values_of (DatetimeSeries xs) = map timestamp xs"
| "values_of (StrSeries xs) = map str_or_nan xs"
| "values_of (ObjectSeries xs) = xs"

text \<open>\<open>series.dropna()\<close> and \<open>series.isna().any()\<close>.\<close>

definition dropna :: "series \<Rightarrow> pyval list" where
  "dropna s = filter (\<lambda>v. \<not> isna v) (values_of s)"

definition isna_any :: "series \<Rightarrow> bool" where
  "isna_any s = list_ex isna (values_of s)"

fun is_integer_dtype :: "series \<Rightarrow> bool" where
  "is_integer_dtype (IntSeries xs) = True"
| "is_integer_dtype _ = False"

fun is_float_dtype :: "series \<Rightarrow> bool" where
  "is_float_dtype (FloatSeries xs) = True"
| "is_float_dtype _ = False"

fun is_bool_dtype :: "series \<Rightarrow> bool" where
  "is_bool_dtype (BoolSeries xs) = True"
| "is_bool_dtype _ = False"

fun is_datetime64_any_dtype :: "series \<Rightarrow> bool" where
  "is_datetime64_any_dtype (DatetimeSeries xs) = True"
| "is_datetime64_any_dtype _ = False"

text \<open>
  \<open>pd.api.types.is_string_dtype(series)\<close>, as pandas 2 and 3 define it: true for the string
  dtype; for a column of dtype \<open>object\<close> the elements are inspected and every one must be a
  \<open>str\<close>. A missing value is not skipped there, so an \<open>object\<close> column with an empty cell
  is not of string dtype. (The function is only consulted for a column with at least one
  element.)
\<close>

fun is_string_dtype :: "series \<Rightarrow> bool" where
  "is_string_dtype (StrSeries xs) = True"
| "is_string_dtype (ObjectSeries xs) = list_all isinstance_str xs"
| "is_string_dtype _ = False"

fun the_int :: "pyval \<Rightarrow> int" where
  "the_int (PInt i) = i"
| "the_int _ = 0"

text \<open>\<open>max()\<close> and \<open>min()\<close> of a column that is not empty.\<close>

fun maximum :: "int list \<Rightarrow> int" where
  "maximum [] = 0"
| "maximum (x # xs) = foldl max x xs"

fun minimum :: "int list \<Rightarrow> int" where
  "minimum [] = 0"
| "minimum (x # xs) = foldl min x xs"

section \<open>Type inferencer\<close>

text \<open>
  \<open>infer_postgres_type\<close> of \<open>csv_to_psql_with_data.py\<close> and \<open>xlsx_to_psql_with_data.py\<close> (the
  same text). \<open>non_null.astype(str).str.len().max()\<close> is the greatest length of the texts
  of the values.
\<close>

definition infer_postgres_type :: "series \<Rightarrow> string" where
  "infer_postgres_type series =
     (let non_null = dropna series
      in if length non_null = 0 then ''TEXT''
         else if is_integer_dtype series then
           (let max_val = maximum (map the_int non_null);
                min_val = minimum (map the_int non_null)
            in if - 2147483648 \<le> min_val \<and> max_val \<le> 2147483647 then ''INTEGER'' else ''BIGINT'')
         else if is_float_dtype series then ''NUMERIC''
         else if is_bool_dtype series then ''BOOLEAN''
         else if is_datetime64_any_dtype series then ''TIMESTAMP''
         else if is_string_dtype series then
           (let max_length = maximum (map (\<lambda>v. int (length (str v))) non_null)
            in if max_length \<le> 255 then ''VARCHAR('' @ str_int (max 255 max_length) @ '')''
               else ''TEXT'')
         else ''TEXT'')"

text \<open>The nullability clause of a column, as \<open>csv_to_sql\<close> and \<open>excel_to_sql\<close> compute it.\<close>

definition nullable_clause :: "series \<Rightarrow> string" where
  "nullable_clause s = (if isna_any s then ''NULL'' else ''NOT NULL'')"

section \<open>CSV to SQL\<close>

text \<open>
  A \<open>DataFrame\<close>: the columns in order, each with its name; all columns have the same
  length, the number of rows.
\<close>

type_synonym dataframe = "(string \<times> series) list"

definition nrows :: "dataframe \<Rightarrow> nat" where
  "nrows df = (if df = [] then 0 else length (values_of (snd (hd df))))"

definition empty :: "dataframe \<Rightarrow> bool" where
  "empty df = (df = [] \<or> nrows df = 0)"

text \<open>
  \<open>DataFrame.iterrows\<close> hands out each row as a \<open>Series\<close> of one dtype for the whole row.
  When every column is \<open>int64\<close> or \<open>float64\<close> and one at least is \<open>float64\<close>, that dtype is
  \<open>float64\<close> and the integers of the row arrive as floats; in every other case the values
  arrive as they are. (An \<open>int64\<close> always has a nearest double.)
\<close>

definition upcast_to_float :: "dataframe \<Rightarrow> bool" where
  "upcast_to_float df =
     (list_all (\<lambda>c. is_integer_dtype (snd c) \<or> is_float_dtype (snd c)) df
      \<and> list_ex (\<lambda>c. is_float_dtype (snd c)) df)"

fun as_float :: "pyval \<Rightarrow> pyval" where
  "as_float (PInt i) = (case float_of_int i of Some f \<Rightarrow> PFloat f | None \<Rightarrow> PInt i)"
| "as_float v = v"

definition row_values :: "dataframe \<Rightarrow> nat \<Rightarrow> pyval list" where
  "row_values df i =
     map (\<lambda>c. if upcast_to_float df then as_float (values_of (snd c) ! i) else values_of (snd c) ! i) df"

record column_info =
  name :: string
  type :: string
  original :: string

definition newline :: char where
  "newline = CHR 0x0A"

text \<open>\<open>sep.join(items)\<close>.\<close>

fun join :: "string \<Rightarrow> string list \<Rightarrow> string" where
  "join sep [] = []"
| "join sep [x] = x"
| "join sep (x # y # xs) = x @ sep @ join sep (y # xs)"

text \<open>The first loop of \<open>csv_to_sql\<close>: one entry of \<open>columns_info\<close> and one line per column.\<close>

definition column_type :: "dataframe \<Rightarrow> series \<Rightarrow> string" where
  "column_type df s = (if empty df then ''TEXT'' else infer_postgres_type s)"

definition column_nullable :: "dataframe \<Rightarrow> series \<Rightarrow> string" where
  "column_nullable df s = (if empty df then ''NULL'' else nullable_clause s)"

definition columns_info :: "dataframe \<Rightarrow> column_info list" where
  "columns_info df =
     map (\<lambda>c. \<lparr>name = sanitize_name (fst c), type = column_type df (snd c), original = fst c\<rparr>) df"

definition column_lines :: "dataframe \<Rightarrow> string list" where
  "column_lines df =
     map (\<lambda>c. ''    '' @ sanitize_name (fst c) @ '' '' @ column_type df (snd c) @ '' ''
               @ column_nullable df (snd c)) df"

definition comment_lines :: "string \<Rightarrow> column_info list \<Rightarrow> string list" where
  "comment_lines table_name infos =
     map (\<lambda>ci. ''COMMENT ON COLUMN '' @ table_name @ ''.'' @ name ci @ '' IS ''
                @ quoted (double_quotes (original ci)) @ '';'' @ [newline]) infos"

text \<open>
  The rows are taken in batches of 1000, \<open>range(0, total_rows, batch_size)\<close>, and within a
  batch in order. A value the escaper raised on would end the conversion.
\<close>

definition batch_starts :: "nat \<Rightarrow> nat list" where
  "batch_starts total_rows = map (\<lambda>k. k * 1000) [0 ..< (total_rows + 999) div 1000]"

definition batch_rows :: "nat \<Rightarrow> nat \<Rightarrow> nat list" where
  "batch_rows total_rows batch_start = [batch_start ..< min (batch_start + 1000) total_rows]"

fun collect :: "(pyerr + 'a) list \<Rightarrow> pyerr + 'a list" where
  "collect [] = Inr []"
| "collect (Inl e # rs) = Inl e"
| "collect (Inr x # rs) = (case collect rs of Inl e \<Rightarrow> Inl e | Inr xs \<Rightarrow> Inr (x # xs))"

definition insert_line :: "string \<Rightarrow> column_info list \<Rightarrow> pyval list \<Rightarrow> pyerr + string" where
  "insert_line table_name infos row =
     (case collect (map (\<lambda>(ci, v). escape_sql_value v (type ci)) (zip infos row)) of
        Inl e \<Rightarrow> Inl e
      | Inr vals \<Rightarrow>
          Inr (''INSERT INTO '' @ table_name @ '' ('' @ join '', '' (map name infos)
               @ '') VALUES ('' @ join '', '' vals @ '');'' @ [newline]))"

definition insert_lines :: "string \<Rightarrow> dataframe \<Rightarrow> pyerr + string list" where
  "insert_lines table_name df =
     collect (map (\<lambda>i. insert_line table_name (columns_info df) (row_values df i))
                  (concat (map (batch_rows (nrows df)) (batch_starts (nrows df)))))"

definition table_name_of :: "string \<Rightarrow> string \<Rightarrow> string" where
  "table_name_of stem table_name_prefix =
     (if table_name_prefix \<noteq> [] then sanitize_name table_name_prefix @ ''_'' @ sanitize_name stem
      else sanitize_name stem)"

text \<open>
  The list \<open>sql_lines\<close> that \<open>csv_to_sql\<close> builds for a frame with at least one column;
  \<open>now\<close> is the text of the current time.
\<close>

definition sql_lines :: "string \<Rightarrow> string \<Rightarrow> string \<Rightarrow> string \<Rightarrow> dataframe \<Rightarrow> pyerr + string list" where
  "sql_lines file_name stem table_name_prefix now df =
     (let table_name = table_name_of stem table_name_prefix
      in case (if 0 < nrows df then insert_lines table_name df else Inr []) of
           Inl e \<Rightarrow> Inl e
         | Inr inserts \<Rightarrow>
             Inr ([''-- Tabela gerada a partir de: '' @ file_name @ [newline],
                   ''-- Gerado em: '' @ now @ [newline]]
                  @ (if empty df
                     then [''-- Arquivo cont'' @ [CHR 0xE9] @ ''m apenas cabe'' @ [CHR 0xE7]
                           @ ''alho (sem dados)'' @ [newline]]
                     else [])
                  @ [[newline],
                     ''CREATE TABLE IF NOT EXISTS '' @ table_name @ '' ('' @ [newline]]
                  @ column_lines df
                  @ [[newline] @ '');'' @ [newline, newline],
                     ''-- Coment'' @ [CHR 0xE1] @ ''rios sobre as colunas:'' @ [newline]]
                  @ comment_lines table_name (columns_info df)
                  @ [[newline]]
                  @ (if 0 < nrows df then [''-- Dados da tabela:'' @ [newline]] @ inserts else [])))"

text \<open>
  \<open>csv_to_sql\<close>: \<open>parsed\<close> is what \<open>pd.read_csv\<close> returned or raised, \<open>file\<close> the contents of
  the SQL file if it exists. The result is the returned flag and the file afterwards: the
  text is appended behind an empty line, or written to a new file; any exception leaves
  the file alone.
\<close>

definition csv_to_sql ::
  "string \<Rightarrow> string \<Rightarrow> string \<Rightarrow> string \<Rightarrow> pyerr + dataframe \<Rightarrow> string option \<Rightarrow> bool \<times> string option" where
  "csv_to_sql file_name stem table_name_prefix now parsed file =
     (case parsed of
        Inl e \<Rightarrow> (False, file)
      | Inr df \<Rightarrow>
          if length df = 0 then (False, file)
          else (case sql_lines file_name stem table_name_prefix now df of
                  Inl e \<Rightarrow> (False, file)
                | Inr lines \<Rightarrow>
                    (True, Some ((case file of None \<Rightarrow> [] | Some old \<Rightarrow> old @ [newline])
                                 @ concat lines))))"

text \<open>
  The statements expected for a table with the columns \<open>id\<close> and \<open>name\<close>: the literal of a
  text value, the \<open>INSERT\<close> statement of one row, and all the lines for three rows, given
  the types inferred for the two columns.
\<close>

definition text_literal :: "pyval \<Rightarrow> string" where
  "text_literal n = (if isna n then ''NULL'' else quoted (double_quotes (str n)))"

definition insert_statement :: "string \<Rightarrow> int \<Rightarrow> pyval \<Rightarrow> string" where
  "insert_statement t i n =
     ''INSERT INTO '' @ t @ '' (id, name) VALUES ('' @ str_int i @ '', '' @ text_literal n @ '');''
     @ [newline]"

definition expected_lines ::
  "string \<Rightarrow> string \<Rightarrow> string \<Rightarrow> string \<Rightarrow> string \<Rightarrow> int list \<Rightarrow> pyval list \<Rightarrow> string list" where
  "expected_lines file_name now t id_type name_type ids names =
     [''-- Tabela gerada a partir de: '' @ file_name @ [newline],
      ''-- Gerado em: '' @ now @ [newline],
      [newline],
      ''CREATE TABLE IF NOT EXISTS '' @ t @ '' ('' @ [newline],
      ''    id '' @ id_type @ '' NOT NULL'',
      ''    name '' @ name_type @ '' NULL'',
      [newline] @ '');'' @ [newline, newline],
      ''-- Coment'' @ [CHR 0xE1] @ ''rios sobre as colunas:'' @ [newline],
      ''COMMENT ON COLUMN '' @ t @ ''.id IS 'id';'' @ [newline],
      ''COMMENT ON COLUMN '' @ t @ ''.name IS 'name';'' @ [newline],
      [newline],
      ''-- Dados da tabela:'' @ [newline]]
     @ map (\<lambda>(i, n). insert_statement t i n) (zip ids names)"

text \<open>
  A column of text: of string dtype, or of dtype \<open>object\<close> with strings and missing values
  only.
\<close>

fun text_column :: "series \<Rightarrow> bool" where
  "text_column (StrSeries xs) = True"
| "text_column (ObjectSeries xs) = list_all (\<lambda>v. isinstance_str v \<or> isna v) xs"
| "text_column _ = False"

section \<open>Schema extractor\<close>

text \<open>
  The three fetch functions of \<open>host-schema-psql_to_psql.py\<close>. The database is outside the
  program, so the connection carries what it will answer: whether it is closed, whether
  \<open>conn.cursor()\<close> raises, and the replies to the queries in the order they are made. A
  reply is the rows of \<open>cur.fetchall()\<close>, or an error raised by \<open>cur.execute\<close> or
  \<open>cur.fetchall\<close>, which may leave the connection closed. When the replies are used up the
  server is gone. A row is a tuple of fields.
\<close>

datatype field = Null | Text string | Number int

type_synonym row = "field list"

datatype reply = Returns "row list" | Raises bool

record connection =
  closed :: bool
  cursor_raises :: bool
  replies :: "reply list"

datatype query =
    ColumnsQuery string string
  | PrimaryKeyQuery string string
  | ForeignKeyQuery string string
  | KeyColumnsQuery field field field
  | UniqueQuery string string
  | IndexQuery string string

text \<open>A step that may raise: the result or the exception, and the connection afterwards.\<close>

type_synonym 'a db = "connection \<Rightarrow> (pyerr + 'a) \<times> connection"

definition return :: "'a \<Rightarrow> 'a db" where
  "return x = (\<lambda>c. (Inr x, c))"

definition raise :: "pyerr \<Rightarrow> 'a db" where
  "raise e = (\<lambda>c. (Inl e, c))"

definition bind :: "'a db \<Rightarrow> ('a \<Rightarrow> 'b db) \<Rightarrow> 'b db" where
  "bind m f = (\<lambda>c. case m c of (Inl e, c') \<Rightarrow> (Inl e, c') | (Inr x, c') \<Rightarrow> f x c')"

text \<open>\<open>try: ... except (psycopg2.Error, Exception): return fallback\<close>.\<close>

definition try_except :: "'a db \<Rightarrow> 'a \<Rightarrow> 'a db" where
  "try_except m fallback = (\<lambda>c. case m c of (Inl e, c') \<Rightarrow> (Inr fallback, c') | (Inr x, c') \<Rightarrow> (Inr x, c'))"

text \<open>\<open>cur = conn.cursor()\<close>, and \<open>cur.execute(query, params)\<close> followed by \<open>cur.fetchall()\<close>.\<close>

definition cursor :: "unit db" where
  "cursor = (\<lambda>c. if cursor_raises c then (Inl DatabaseError, c) else (Inr (), c))"

definition execute_fetchall :: "query \<Rightarrow> row list db" where
  "execute_fetchall q =
     (\<lambda>c. case replies c of
             [] \<Rightarrow> (Inl DatabaseError, c\<lparr>closed := True\<rparr>)
           | Returns rows # rest \<Rightarrow> (Inr rows, c\<lparr>replies := rest\<rparr>)
           | Raises closes # rest \<Rightarrow> (Inl DatabaseError, c\<lparr>closed := closed c \<or> closes, replies := rest\<rparr>))"

text \<open>\<open>row[0]\<close>, and the unpacking of a row into three names.\<close>

definition first_field :: "row \<Rightarrow> field db" where
  "first_field r = (case r of [] \<Rightarrow> raise IndexError | x # xs \<Rightarrow> return x)"

fun first_fields :: "row list \<Rightarrow> field list db" where
  "first_fields [] = return []"
| "first_fields (r # rs) =
     bind (first_field r) (\<lambda>x. bind (first_fields rs) (\<lambda>xs. return (x # xs)))"

definition unpack3 :: "row \<Rightarrow> (field \<times> field \<times> field) db" where
  "unpack3 r = (case r of [a, b, c] \<Rightarrow> return (a, b, c) | _ \<Rightarrow> raise ValueError)"

text \<open>\<open>obter_colunas\<close>.\<close>

definition obter_colunas_body :: "string \<Rightarrow> string \<Rightarrow> row list db" where
  "obter_colunas_body schema tabela =
     bind cursor (\<lambda>cur. execute_fetchall (ColumnsQuery schema tabela))"

definition obter_colunas :: "string \<Rightarrow> string \<Rightarrow> row list db" where
  "obter_colunas schema tabela =
     try_except (\<lambda>conn. if closed conn then return [] conn
                        else obter_colunas_body schema tabela conn) []"

text \<open>
  \<open>obter_constraints\<close>: the primary key columns, then for each foreign key constraint its
  local and its referenced columns, then the unique constraints.
\<close>

record constraints =
  primary_keys :: "field list"
  foreign_keys :: "(field \<times> field list \<times> field \<times> field \<times> field list) list"
  unique :: "row list"

definition no_constraints :: constraints where
  "no_constraints = \<lparr>primary_keys = [], foreign_keys = [], unique = []\<rparr>"

fun foreign_keys_loop ::
  "string \<Rightarrow> string \<Rightarrow> row list \<Rightarrow> (field \<times> field list \<times> field \<times> field \<times> field list) list db" where
  "foreign_keys_loop schema tabela [] = return []"
| "foreign_keys_loop schema tabela (r # rs) =
     bind (unpack3 r) (\<lambda>(constraint_name, fk_schema, fk_table).
     bind (execute_fetchall (KeyColumnsQuery constraint_name (Text schema) (Text tabela))) (\<lambda>local_rows.
     bind (first_fields local_rows) (\<lambda>local_cols.
     bind (execute_fetchall (KeyColumnsQuery constraint_name fk_schema fk_table)) (\<lambda>fk_rows.
     bind (first_fields fk_rows) (\<lambda>fk_cols.
     bind (foreign_keys_loop schema tabela rs) (\<lambda>more.
     return ((constraint_name, local_cols, fk_schema, fk_table, fk_cols) # more)))))))"

definition obter_constraints_body :: "string \<Rightarrow> string \<Rightarrow> constraints db" where
  "obter_constraints_body schema tabela =
     bind cursor (\<lambda>cur.
     bind (execute_fetchall (PrimaryKeyQuery schema tabela)) (\<lambda>pk_rows.
     bind (first_fields pk_rows) (\<lambda>pks.
     bind (execute_fetchall (ForeignKeyQuery schema tabela)) (\<lambda>fk_constraints.
     bind (foreign_keys_loop schema tabela fk_constraints) (\<lambda>fks.
     bind (execute_fetchall (UniqueQuery schema tabela)) (\<lambda>unique_constraints.
     return \<lparr>primary_keys = pks, foreign_keys = fks, unique = unique_constraints\<rparr>))))))"

definition obter_constraints :: "string \<Rightarrow> string \<Rightarrow> constraints db" where
  "obter_constraints schema tabela =
     try_except (\<lambda>conn. if closed conn then return no_constraints conn
                        else obter_constraints_body schema tabela conn) no_constraints"

text \<open>
  \<open>obter_indices\<close>. Its \<open>finally\<close> clause closes the cursor, a plain client-side cursor
  whose \<open>close\<close> does not raise.
\<close>

definition obter_indices_body :: "string \<Rightarrow> string \<Rightarrow> row list db" where
  "obter_indices_body schema tabela =
     bind cursor (\<lambda>cur. execute_fetchall (IndexQuery schema tabela))"

definition obter_indices :: "string \<Rightarrow> string \<Rightarrow> row list db" where
  "obter_indices schema tabela =
     try_except (\<lambda>conn. if closed conn then return [] conn
                        else obter_indices_body schema tabela conn) []"

section \<open>Properties of the name sanitizer\<close>

lemma code_underscore: "code (CHR ''_'') = 95"
  by (simp add: code_def)

lemma code_inj: "code a = code b \<Longrightarrow> a = b"
  by (simp add: code_def)

lemma code_lt_256: "code c < 256"
  by (simp add: code_def)

lemma ident_not_space: "is_ident_char c \<Longrightarrow> \<not> is_space c"
  by (auto simp: is_ident_char_def is_space_def is_ascii_lower_def is_ascii_digit_def code_underscore)

lemma ident_keep: "is_ident_char c \<Longrightarrow> keep_char c"
  by (auto simp: is_ident_char_def keep_char_def)

lemma ident_sep: "is_ident_char c \<Longrightarrow> is_sep c = (c = CHR ''_'')"
  by (auto simp: is_sep_def dest: ident_not_space)

lemma ident_lower: "is_ident_char c \<Longrightarrow> lower_char c = c"
  by (auto simp: is_ident_char_def lower_char_def is_ascii_lower_def is_ascii_digit_def
      is_ascii_upper_def code_underscore)

lemma code_char_of: "n < 256 \<Longrightarrow> code (char_of n) = n"
  by (simp add: code_def)

lemma lower_char_word:
  assumes "keep_char c" "\<not> is_sep c"
  shows "is_ident_char (lower_char c) \<and> lower_char c \<noteq> CHR ''_''"
proof -
  from assms have alnum: "is_ascii_lower c \<or> is_ascii_upper c \<or> is_ascii_digit c"
    by (auto simp: keep_char_def is_sep_def)
  have ne: "c \<noteq> CHR ''_''" using assms by (auto simp: is_sep_def)
  show ?thesis
  proof (cases "is_ascii_upper c")
    case True
    then have "lower_char c = char_of (code c + 32)" by (simp add: lower_char_def)
    moreover have "code (char_of (code c + 32)) = code c + 32"
      using True by (intro code_char_of) (simp add: is_ascii_upper_def)
    ultimately show ?thesis using True
      by (auto simp: is_ident_char_def is_ascii_lower_def is_ascii_upper_def code_underscore
          dest!: arg_cong [where f = code])
  next
    case False
    with alnum have "is_ident_char c" by (auto simp: is_ident_char_def)
    with ne show ?thesis by (simp add: ident_lower)
  qed
qed


lemma remove_special_set: "c \<in> set (remove_special s) \<Longrightarrow> keep_char c"
  by (simp add: remove_special_def)

lemma collapse_seps_set:
  "c \<in> set (collapse_seps s) \<Longrightarrow> c = CHR ''_'' \<or> (c \<in> set s \<and> \<not> is_sep c)"
proof (induction s rule: collapse_seps.induct)
  case 1
  then show ?case by simp
next
  case (2 d ds)
  then show ?case
    by (auto split: if_splits dest: set_dropWhileD)
qed

lemma collapse_seps_hd:
  "collapse_seps s \<noteq> [] \<Longrightarrow> hd (collapse_seps s) = CHR ''_'' \<Longrightarrow> s \<noteq> [] \<and> is_sep (hd s)"
  by (cases s) (auto simp: is_sep_def split: if_splits)

lemma dropWhile_hd_not: "dropWhile P xs \<noteq> [] \<Longrightarrow> \<not> P (hd (dropWhile P xs))"
  by (metis hd_dropWhile)

lemma sublist_uu_Cons:
  "sublist ''__'' (c # s) = ((c = CHR ''_'' \<and> s \<noteq> [] \<and> hd s = CHR ''_'') \<or> sublist ''__'' s)"
  by (cases s) (auto simp: sublist_Cons_right)

lemma collapse_seps_no_double: "\<not> sublist ''__'' (collapse_seps s)"
proof (induction s rule: collapse_seps.induct)
  case 1
  then show ?case by simp
next
  case (2 d ds)
  show ?case
  proof (cases "is_sep d")
    case True
    let ?r = "dropWhile is_sep ds"
    have "\<not> (collapse_seps ?r \<noteq> [] \<and> hd (collapse_seps ?r) = CHR ''_'')"
      using collapse_seps_hd [of ?r] dropWhile_hd_not [of is_sep ds] by blast
    with True "2.IH"(1) show ?thesis by (simp add: sublist_uu_Cons)
  next
    case False
    then have "d \<noteq> CHR ''_''" by (auto simp: is_sep_def)
    with False "2.IH"(2) show ?thesis by (simp add: sublist_uu_Cons)
  qed
qed

lemma sublist_uu_map:
  assumes "\<And>c. c \<in> set s \<Longrightarrow> f c = CHR ''_'' \<Longrightarrow> c = CHR ''_''"
  shows "sublist ''__'' (map f s) \<Longrightarrow> sublist ''__'' s"
  using assms
proof (induction s)
  case Nil
  then show ?case by simp
next
  case (Cons a s)
  then show ?case by (cases s) (auto simp: sublist_uu_Cons)
qed

lemma strip_suffix_prefix: "sublist (strip u s) s"
proof -
  have "suffix (dropWhile (\<lambda>c. c = u) (rev (dropWhile (\<lambda>c. c = u) s))) (rev (dropWhile (\<lambda>c. c = u) s))"
    by (rule suffix_dropWhile)
  then have "sublist (strip u s) (dropWhile (\<lambda>c. c = u) s)"
    unfolding strip_def by (metis sublist_rev_left suffix_imp_sublist)
  moreover have "sublist (dropWhile (\<lambda>c. c = u) s) s"
    by (simp add: suffix_dropWhile)
  ultimately show ?thesis by (rule sublist_order.order.trans)
qed

lemma strip_set: "c \<in> set (strip u s) \<Longrightarrow> c \<in> set s"
  using strip_suffix_prefix [of u s] by (meson set_mono_sublist subsetD)

lemma strip_ends: "strip u s \<noteq> [] \<Longrightarrow> hd (strip u s) \<noteq> u \<and> last (strip u s) \<noteq> u"
proof -
  assume ne: "strip u s \<noteq> []"
  let ?P = "\<lambda>c. c = u"
  let ?a = "dropWhile ?P s"
  let ?b = "dropWhile ?P (rev ?a)"
  have b: "?b \<noteq> []" using ne by (simp add: strip_def)
  then have hb: "hd ?b \<noteq> u" using dropWhile_hd_not [of ?P "rev ?a"] by simp
  have "last (strip u s) = hd ?b" using b by (simp add: strip_def last_rev)
  with hb have l: "last (strip u s) \<noteq> u" by simp
  have a: "?a \<noteq> []"
  proof
    assume e: "?a = []"
    have "?b = []" unfolding e by simp
    with b show False by (simp only:)
  qed
  then have ha: "hd ?a \<noteq> u" using dropWhile_hd_not [of ?P s] by simp
  obtain x xs where axs: "?a = x # xs" using a by (cases ?a) auto
  with ha have xu: "x \<noteq> u" by simp
  have "rev ?a = rev xs @ [x]" using axs by simp
  then have "?b = dropWhile ?P (rev xs) @ [x]"
    using xu by (simp add: dropWhile_append3 dropWhile_append)
  then have "strip u s = x # rev (dropWhile ?P (rev xs))"
    by (simp add: strip_def)
  with xu l show ?thesis by simp
qed

lemma strip_id: "(s \<noteq> [] \<Longrightarrow> hd s \<noteq> u \<and> last s \<noteq> u) \<Longrightarrow> strip u s = s"
proof (cases s)
  case Nil
  then show ?thesis by (simp add: strip_def)
next
  case (Cons a as)
  assume "s \<noteq> [] \<Longrightarrow> hd s \<noteq> u \<and> last s \<noteq> u"
  with Cons have h: "a \<noteq> u" and l: "last s \<noteq> u" by auto
  from h Cons have 1: "dropWhile (\<lambda>c. c = u) s = s" by simp
  have "rev s \<noteq> []" using Cons by simp
  moreover have "hd (rev s) = last s" by (rule hd_rev)
  then have "hd (rev s) \<noteq> u" using l by simp
  ultimately have "dropWhile (\<lambda>c. c = u) (rev s) = rev s"
    by (cases "rev s") auto
  with 1 show ?thesis by (simp add: strip_def)
qed


lemma collapse_seps_id:
  "(\<forall>c \<in> set s. is_ident_char c) \<Longrightarrow> \<not> sublist ''__'' s \<Longrightarrow> collapse_seps s = s"
proof (induction s)
  case Nil
  then show ?case by simp
next
  case (Cons a s)
  then have ih: "collapse_seps s = s" by (simp add: sublist_uu_Cons)
  show ?case
  proof (cases "is_sep a")
    case True
    with Cons.prems have a: "a = CHR ''_''" by (simp add: ident_sep)
    have "dropWhile is_sep s = s"
    proof (cases s)
      case Nil
      then show ?thesis by simp
    next
      case (Cons b bs)
      with Cons.prems a have "b \<noteq> CHR ''_''" and "is_ident_char b"
        by (auto simp: sublist_uu_Cons)
      then have "\<not> is_sep b" by (simp add: ident_sep)
      with Cons show ?thesis by simp
    qed
    with True a ih show ?thesis by simp
  next
    case False
    with ih show ?thesis by simp
  qed
qed

lemma name_core_normal: "normal_name (name_core x)"
proof -
  let ?a = "remove_special x"
  let ?b = "collapse_seps ?a"
  let ?c = "lower ?b"
  have b_set: "c = CHR ''_'' \<or> (keep_char c \<and> \<not> is_sep c)" if "c \<in> set ?b" for c
    using collapse_seps_set [OF that] remove_special_set [of c x] by blast
  have c_set: "is_ident_char c" if "c \<in> set ?c" for c
  proof -
    from that obtain d where d: "d \<in> set ?b" and c: "c = lower_char d"
      by (auto simp: lower_def)
    from b_set [OF d] show ?thesis
    proof
      assume "d = CHR ''_''"
      then have "is_ident_char d" by (simp add: is_ident_char_def)
      then show ?thesis using c by (simp add: ident_lower)
    next
      assume "keep_char d \<and> \<not> is_sep d"
      then show ?thesis using c lower_char_word [of d] by simp
    qed
  qed
  have "d = CHR ''_''" if "d \<in> set ?b" "lower_char d = CHR ''_''" for d
    using b_set [OF that(1)] that(2) lower_char_word [of d] by blast
  then have "sublist ''__'' ?c \<Longrightarrow> sublist ''__'' ?b"
    unfolding lower_def by (rule sublist_uu_map)
  then have c_nd: "\<not> sublist ''__'' ?c"
    using collapse_seps_no_double [of ?a] by blast
  have core: "name_core x = strip (CHR ''_'') ?c" by (simp add: name_core_def)
  have "\<not> sublist ''__'' (name_core x)"
    using c_nd strip_suffix_prefix [of "CHR ''_''" ?c] sublist_order.order.trans
    unfolding core by blast
  moreover have "\<forall>c \<in> set (name_core x). is_ident_char c"
    unfolding core using strip_set c_set by blast
  moreover have "name_core x \<noteq> [] \<longrightarrow> hd (name_core x) \<noteq> CHR ''_'' \<and> last (name_core x) \<noteq> CHR ''_''"
    unfolding core using strip_ends by blast
  ultimately show ?thesis by (simp add: normal_name_def)
qed

lemma name_core_id: "normal_name s \<Longrightarrow> name_core s = s"
proof -
  assume n: "normal_name s"
  then have ids: "\<forall>c \<in> set s. is_ident_char c" by (simp add: normal_name_def)
  then have 1: "remove_special s = s"
    by (simp add: remove_special_def ident_keep)
  have 2: "collapse_seps s = s"
    using ids n by (simp add: collapse_seps_id normal_name_def)
  have 3: "lower s = s"
    using ids by (simp add: lower_def ident_lower map_idI)
  have 4: "strip (CHR ''_'') s = s"
    using n by (intro strip_id) (simp add: normal_name_def)
  show ?thesis by (simp add: name_core_def 1 2 3 4)
qed

lemma sanitize_name_core:
  "sanitize_name x =
     (if name_core x = [] then ''unnamed''
      else if isdigit (hd (name_core x)) then ''t_'' @ name_core x
      else name_core x)"
  by (simp add: sanitize_name_def name_core_def Let_def)

lemma ident_isdigit: "is_ident_char c \<Longrightarrow> isdigit c = is_ascii_digit c"
  by (auto simp: isdigit_def is_ident_char_def is_ascii_lower_def code_underscore)

lemma sanitize_name_normal:
  "normal_name (sanitize_name x) \<and> sanitize_name x \<noteq> [] \<and> \<not> isdigit (hd (sanitize_name x))"
proof -
  let ?n = "name_core x"
  have n: "normal_name ?n" by (rule name_core_normal)
  consider (empty) "?n = []" | (digit) "?n \<noteq> []" "isdigit (hd ?n)"
    | (plain) "?n \<noteq> []" "\<not> isdigit (hd ?n)" by blast
  then show ?thesis
  proof cases
    case empty
    then have "sanitize_name x = ''unnamed''" by (simp add: sanitize_name_core)
    then show ?thesis
      by (simp add: normal_name_def is_ident_char_def is_ascii_lower_def is_ascii_digit_def
          isdigit_def code_def sublist_uu_Cons)
  next
    case digit
    then have s: "sanitize_name x = CHR ''t'' # CHR ''_'' # ?n" by (simp add: sanitize_name_core)
    have "hd ?n \<noteq> CHR ''_''" using n digit by (simp add: normal_name_def)
    moreover have "last ?n \<noteq> CHR ''_''" using n digit by (simp add: normal_name_def)
    ultimately show ?thesis
      using n digit unfolding s
      by (simp add: normal_name_def sublist_uu_Cons is_ident_char_def is_ascii_lower_def
          is_ascii_digit_def isdigit_def code_def)
  next
    case plain
    then have "sanitize_name x = ?n" by (simp add: sanitize_name_core)
    with n plain show ?thesis by simp
  qed
qed


section \<open>Properties of the value escapers\<close>

lemma quotes_paired_Cons_other: "c \<noteq> quote \<Longrightarrow> quotes_paired (c # s) = quotes_paired s"
  by (cases s) simp_all

lemma quotes_paired_double_quotes: "quotes_paired (double_quotes s)"
proof (induction s)
  case Nil
  then show ?case by (simp add: double_quotes_def)
next
  case (Cons c s)
  then show ?case
    by (cases "c = quote") (simp_all add: double_quotes_def quotes_paired_Cons_other)
qed

lemma well_formed_quoted: "well_formed_literal (quoted s) = quotes_paired s"
  by (simp add: well_formed_literal_def quoted_def butlast_append)


lemma sublist_INTEGER_TEXT: "\<not> sublist ''INTEGER'' ''TEXT''" "\<not> sublist ''BIGINT'' ''TEXT''"
  by code_simp+

lemma sublist_INTEGER_BIGINT: "\<not> sublist ''INTEGER'' ''BIGINT''" "\<not> sublist ''INTEGER'' ''NUMERIC''" "\<not> sublist ''BIGINT'' ''NUMERIC''"
  by code_simp+








lemma exponent_text_has_e: "CHR ''e'' \<in> set (exponent_text e)"
  by (simp add: exponent_text_def Let_def)

lemma layout_has_mark: "\<exists>c \<in> set (layout ds k). c = CHR ''.'' \<or> c = CHR ''e''"
proof -
  consider (a) "k \<le> - 4 \<or> 16 < k" | (b) "\<not> (k \<le> - 4 \<or> 16 < k)" "k \<le> 0"
    | (c) "\<not> (k \<le> - 4 \<or> 16 < k)" "\<not> k \<le> 0" "int (length ds) \<le> k"
    | (d) "\<not> (k \<le> - 4 \<or> 16 < k)" "\<not> k \<le> 0" "\<not> int (length ds) \<le> k" by blast
  then show ?thesis
  proof cases
    case a
    then have "layout ds k = (if length ds = 1 then ds else hd ds # CHR ''.'' # tl ds) @ exponent_text (k - 1)"
      by (simp add: layout_def)
    then show ?thesis using exponent_text_has_e [of "k - 1"] by auto
  next
    case b
    then have "layout ds k = ''0.'' @ replicate (nat (- k)) (CHR ''0'') @ ds"
      by (simp add: layout_def)
    then show ?thesis by simp
  next
    case c
    then have "layout ds k = ds @ replicate (nat k - length ds) (CHR ''0'') @ ''.0''"
      by (simp add: layout_def)
    then show ?thesis by simp
  next
    case d
    then have "layout ds k = take (nat k) ds @ CHR ''.'' # drop (nat k) ds"
      by (simp add: layout_def)
    then show ?thesis by simp
  qed
qed

lemma mark_not_digit: "c = CHR ''.'' \<or> c = CHR ''e'' \<Longrightarrow> \<not> is_ascii_digit c"
  by (auto simp: is_ascii_digit_def code_def)

lemma str_float_not_digits: "\<exists>c \<in> set (str_float f). \<not> is_ascii_digit c"
proof (cases f)
  case Nan
  then show ?thesis by (simp add: is_ascii_digit_def code_def)
next
  case (Inf neg)
  then show ?thesis by (simp add: is_ascii_digit_def code_def)
next
  case (Fin neg m q)
  show ?thesis
  proof (cases "m = 0")
    case True
    with Fin show ?thesis by (simp add: is_ascii_digit_def code_def)
  next
    case False
    obtain c where "c \<in> set (repr_finite (normal_form m q))" "c = CHR ''.'' \<or> c = CHR ''e''"
      using layout_has_mark unfolding repr_finite_def layout_decimal_def by blast
    then show ?thesis using Fin False mark_not_digit by auto
  qed
qed

lemma digit_not_special:
  assumes "is_ascii_digit c"
  shows "c \<noteq> CHR ''_''" "c \<noteq> CHR ''-''" "c \<noteq> CHR ''+''" "\<not> is_float_space c"
  using assms by (auto simp: is_ascii_digit_def is_float_space_def code_def)

lemma takeWhile_all: "\<forall>c \<in> set s. P c \<Longrightarrow> takeWhile P s = s"
  by (simp add: takeWhile_eq_all_conv)

lemma dropWhile_all: "\<forall>c \<in> set s. P c \<Longrightarrow> dropWhile P s = []"
  by simp

lemma strip_float_space_digits:
  assumes "s \<noteq> []" "\<forall>c \<in> set s. is_ascii_digit c"
  shows "rev (dropWhile is_float_space (rev (dropWhile is_float_space s))) = s"
proof -
  obtain a as where s: "s = a # as" using assms(1) by (cases s) auto
  then have "\<not> is_float_space a" using assms(2) digit_not_special(4) by simp
  then have 1: "dropWhile is_float_space s = s" using s by simp
  have "rev s \<noteq> []" using assms(1) by simp
  then obtain b bs where r: "rev s = b # bs" by (cases "rev s") auto
  then have "b \<in> set s" by (metis list.set_intros(1) set_rev)
  then have "\<not> is_float_space b" using assms(2) digit_not_special(4) by blast
  then have "dropWhile is_float_space (rev s) = rev s" using r by simp
  with 1 show ?thesis by simp
qed

lemma parse_number_digits:
  assumes "s \<noteq> []" "\<forall>c \<in> set s. is_ascii_digit c"
  shows "parse_number s = Some (float_of_decimal False (int_of_digits s) 0)"
proof -
  obtain a as where s: "s = a # as" using assms(1) by (cases s) auto
  then have "a \<noteq> CHR ''-''" "a \<noteq> CHR ''+''" using assms(2) digit_not_special by auto
  then have sign: "take_sign s = (False, s)" using s by (simp add: take_sign_def)
  have tw: "takeWhile is_ascii_digit s = s" using assms(2) by (rule takeWhile_all)
  have dw: "dropWhile is_ascii_digit s = []" using assms(2) by (rule dropWhile_all)
  have pe: "parse_exponent [] = (0, [])" by (simp add: parse_exponent_def)
  show ?thesis
    using assms(1) by (simp add: parse_number_def sign tw dw pe Let_def)
qed

lemma float_of_str_digits:
  assumes "s \<noteq> []" "\<forall>c \<in> set s. is_ascii_digit c"
  shows "float_of_str s = Some (float_of_decimal False (int_of_digits s) 0)"
proof -
  have "CHR ''_'' \<notin> set s" using assms(2) digit_not_special(1) by blast
  then have "float_of_str s = float_from_string_inner s" by (simp add: float_of_str_def)
  also have "\<dots> = parse_number s"
    using assms by (simp add: float_from_string_inner_def strip_float_space_digits Let_def)
  finally show ?thesis using assms by (simp add: parse_number_digits)
qed

lemma escape_numeric:
  assumes "t = ''INTEGER'' \<or> t = ''BIGINT'' \<or> t = ''NUMERIC''" "\<not> isna v" "\<not> is_numeric_type v"
  shows "escape_sql_value v t = (case float v of Inr f \<Rightarrow> Inr (str_float f) | Inl e \<Rightarrow> Inr ''NULL'')"
proof -
  have "v \<noteq> PNone" using assms(2) by auto
  moreover have "t \<noteq> ''BOOLEAN''" using assms(1) by auto
  moreover have "sublist ''INTEGER'' t \<or> sublist ''BIGINT'' t \<or> t = ''NUMERIC''"
    using assms(1) by auto
  ultimately show ?thesis using assms(2,3) by (simp add: escape_sql_value_def)
qed

lemma escape_sql_value_returns: "\<exists>s. escape_sql_value v t = Inr s"
  by (simp add: escape_sql_value_def split: sum.split)

lemma escape_sql_value_null: "isna v \<Longrightarrow> escape_sql_value v t = Inr ''NULL''"
  by (simp add: escape_sql_value_def)

lemma lower_char_ascii:
  assumes "code d < 128"
  shows "(lower_char c = d) = (ascii_lower_char c = d)"
proof (cases "192 \<le> code c \<and> code c \<le> 222 \<and> code c \<noteq> 215")
  case True
  then have nu: "\<not> is_ascii_upper c" by (simp add: is_ascii_upper_def)
  have "code (lower_char c) = code c + 32"
    using True by (simp add: lower_char_def code_char_of)
  then have "lower_char c \<noteq> d" using assms True by auto
  moreover have "ascii_lower_char c \<noteq> d" using assms True nu by (auto simp: ascii_lower_char_def)
  ultimately show ?thesis by simp
next
  case False
  then show ?thesis by (auto simp: lower_char_def ascii_lower_char_def)
qed

lemma lower_ascii:
  "\<forall>d \<in> set w. code d < 128 \<Longrightarrow> (lower s = w) = (map ascii_lower_char s = w)"
proof (induction s arbitrary: w)
  case Nil
  then show ?case by (simp add: lower_def)
next
  case (Cons c s)
  show ?case
  proof (cases w)
    case Nil
    then show ?thesis by (simp add: lower_def)
  next
    case (Cons d ds)
    with Cons.prems have d: "code d < 128" and ds: "\<forall>d \<in> set ds. code d < 128" by auto
    from Cons.IH [OF ds] have "(map lower_char s = ds) = (map ascii_lower_char s = ds)"
      by (simp add: lower_def)
    with lower_char_ascii [OF d, of c] Cons show ?thesis by (simp add: lower_def)
  qed
qed

lemma upper_char_cases:
  "code c = 223 \<and> upper_char c = [83, 83]
   \<or> 128 \<le> code c \<and> (\<exists>x. upper_char c = [x] \<and> 128 \<le> x)
   \<or> code c < 128 \<and> upper_char c = [code (ascii_upper_char c)]"
proof (cases "is_ascii_lower c")
  case True
  then have "code (char_of (code c - 32) :: char) = code c - 32"
    by (intro code_char_of) (auto simp: is_ascii_lower_def)
  with True show ?thesis
    by (simp add: upper_char_def ascii_upper_char_def is_ascii_lower_def)
next
  case False
  then show ?thesis
    by (auto simp: upper_char_def ascii_upper_char_def is_ascii_lower_def)
qed

lemma upper_ascii:
  "\<forall>d \<in> set w. code d < 128 \<Longrightarrow> no_double_S w \<Longrightarrow> (upper s = points w) = (map ascii_upper_char s = w)"
proof (induction s arbitrary: w)
  case Nil
  then show ?case by (auto simp: upper_def points_def)
next
  case (Cons c s)
  have S: "code (CHR ''S'') = 83" by (simp add: code_def)
  show ?case
  proof (cases w)
    case Nil
    have "upper_char c \<noteq> []" using upper_char_cases [of c] by auto
    with Nil show ?thesis by (simp add: upper_def points_def)
  next
    case w: (Cons d ds)
    with Cons.prems have d: "code d < 128" and ds: "\<forall>d \<in> set ds. code d < 128"
      and nd: "no_double_S ds" by (auto elim: no_double_S.elims)
    note ih = Cons.IH [OF ds nd]
    from upper_char_cases [of c] show ?thesis
    proof (elim disjE conjE exE)
      assume c: "code c = 223" "upper_char c = [83, 83]"
      then have "ascii_upper_char c \<noteq> d" using d by (auto simp: ascii_upper_char_def is_ascii_lower_def)
      moreover have "upper (c # s) \<noteq> points w"
      proof
        assume "upper (c # s) = points w"
        then have e: "83 # 83 # upper s = code d # points ds" using c w by (simp add: upper_def points_def)
        then obtain d2 ds2 where ds2: "ds = d2 # ds2" by (cases ds) (auto simp: points_def)
        with e have "code d = 83" "code d2 = 83" by (auto simp: points_def)
        then have "d = CHR ''S''" "d2 = CHR ''S''" using S by (metis code_inj)+
        with Cons.prems(2) w ds2 show False by simp
      qed
      ultimately show ?thesis using w by simp
    next
      fix x assume c: "128 \<le> code c" "upper_char c = [x]" "128 \<le> x"
      then have "ascii_upper_char c \<noteq> d" using d by (auto simp: ascii_upper_char_def is_ascii_lower_def)
      moreover have "upper (c # s) \<noteq> points w" using c d w by (auto simp: upper_def points_def)
      ultimately show ?thesis using w by simp
    next
      assume c: "code c < 128" "upper_char c = [code (ascii_upper_char c)]"
      have "(code (ascii_upper_char c) = code d) = (ascii_upper_char c = d)" using code_inj by auto
      with c ih w show ?thesis by (auto simp: upper_def points_def)
    qed
  qed
qed

lemma ascii_upper_lower_char:
  assumes "\<not> is_ascii_lower d"
  shows "(ascii_upper_char c = d) = (ascii_lower_char c = ascii_lower_char d)"
proof -
  have up: "code (char_of (code x + 32) :: char) = code x + 32" if "is_ascii_upper x" for x
    using that by (intro code_char_of) (auto simp: is_ascii_upper_def)
  have lo: "code (char_of (code x - 32) :: char) = code x - 32" if "is_ascii_lower x" for x
    using that by (intro code_char_of) (auto simp: is_ascii_lower_def)
  have "(code (ascii_upper_char c) = code d) = (code (ascii_lower_char c) = code (ascii_lower_char d))"
    using assms up [of c] up [of d] lo [of c]
    by (auto simp: ascii_upper_char_def ascii_lower_char_def is_ascii_lower_def is_ascii_upper_def)
  then show ?thesis using code_inj by metis
qed

lemma ascii_upper_lower:
  "\<forall>d \<in> set w. \<not> is_ascii_lower d \<Longrightarrow>
   (map ascii_upper_char s = w) = (map ascii_lower_char s = map ascii_lower_char w)"
proof (induction s arbitrary: w)
  case Nil
  then show ?case by auto
next
  case (Cons c s)
  then show ?case
    by (cases w) (auto simp: ascii_upper_lower_char)
qed

lemma upper_caseless:
  assumes "\<forall>d \<in> set W. code d < 128 \<and> \<not> is_ascii_lower d" "no_double_S W"
    "map ascii_lower_char W = map ascii_lower_char w"
  shows "(upper s = points W) = caseless_eq s w"
  using assms upper_ascii [of W s] ascii_upper_lower [of W s] by (simp add: caseless_eq_def)

lemma lower_caseless:
  assumes "\<forall>d \<in> set w. code d < 128" "map ascii_lower_char w = w"
  shows "(lower s = w) = caseless_eq s w"
  using assms lower_ascii [of w s] by (simp add: caseless_eq_def)

lemma affirmative_csv:
  "(lower s \<in> set [''true'', ''1'', ''yes'', ''sim''])
   = (\<exists>w \<in> set [''true'', ''1'', ''yes'', ''sim'']. caseless_eq s w)"
proof -
  have "(lower s = w) = caseless_eq s w" if "w \<in> set [''true'', ''1'', ''yes'', ''sim'']" for w
  proof (rule lower_caseless)
    show "\<forall>d \<in> set w. code d < 128" using that by (auto simp: code_def)
    show "map ascii_lower_char w = w"
      using that by (auto simp: ascii_lower_char_def is_ascii_upper_def code_def)
  qed
  then show ?thesis by auto
qed

lemma lowered_words:
  "map ascii_lower_char ''T'' = map ascii_lower_char ''t''"
  "map ascii_lower_char ''TRUE'' = map ascii_lower_char ''true''"
  "map ascii_lower_char ''1'' = map ascii_lower_char ''1''"
  "map ascii_lower_char ''Y'' = map ascii_lower_char ''y''"
  "map ascii_lower_char ''YES'' = map ascii_lower_char ''yes''"
  "map ascii_lower_char ''S'' = map ascii_lower_char ''s''"
  "map ascii_lower_char ''SIM'' = map ascii_lower_char ''sim''"
  by code_simp+

lemma affirmative_dbc:
  "(upper s \<in> set (map points [''T'', ''TRUE'', ''1'', ''Y'', ''YES'', ''S'', ''SIM'']))
   = (\<exists>w \<in> set [''true'', ''1'', ''yes'', ''sim'', ''t'', ''y'', ''s'']. caseless_eq s w)"
proof -
  have u: "(upper s = points W) = caseless_eq s w"
    if "W \<in> set [''T'', ''TRUE'', ''1'', ''Y'', ''YES'', ''S'', ''SIM'']"
      "map ascii_lower_char W = map ascii_lower_char w" for W w
  proof (rule upper_caseless)
    show "\<forall>d \<in> set W. code d < 128 \<and> \<not> is_ascii_lower d"
      using that(1) by (auto simp: code_def is_ascii_lower_def)
    show "no_double_S W" using that(1) by auto
    show "map ascii_lower_char W = map ascii_lower_char w" by (rule that(2))
  qed
  show ?thesis
    using u [of "''T''" "''t''"] u [of "''TRUE''" "''true''"] u [of "''1''" "''1''"]
      u [of "''Y''" "''y''"] u [of "''YES''" "''yes''"] u [of "''S''" "''s''"]
      u [of "''SIM''" "''sim''"] lowered_words
    by auto
qed

lemma upper_L: "upper ''L'' = points ''L''"
  by code_simp

lemma sublist_BOOLEAN: "\<not> sublist ''INTEGER'' ''BOOLEAN''" "\<not> sublist ''BIGINT'' ''BOOLEAN''"
  by code_simp+

section \<open>Properties of the type inferencer and of the CSV conversion\<close>

lemma foldl_max_le: "(foldl max a xs \<le> (b::int)) = (a \<le> b \<and> (\<forall>x \<in> set xs. x \<le> b))"
  by (induction xs arbitrary: a) auto

lemma foldl_min_ge: "((b::int) \<le> foldl min a xs) = (b \<le> a \<and> (\<forall>x \<in> set xs. b \<le> x))"
  by (induction xs arbitrary: a) auto

lemma maximum_le: "xs \<noteq> [] \<Longrightarrow> (maximum xs \<le> b) = (\<forall>x \<in> set xs. x \<le> b)"
  by (cases xs) (simp_all add: foldl_max_le)

lemma minimum_ge: "xs \<noteq> [] \<Longrightarrow> (b \<le> minimum xs) = (\<forall>x \<in> set xs. b \<le> x)"
  by (cases xs) (simp_all add: foldl_min_ge)

lemma dropna_ints: "dropna (IntSeries xs) = map PInt xs"
  by (simp add: dropna_def)

lemma the_int_PInt: "map (the_int \<circ> PInt) xs = xs"
  by (simp add: comp_def)

lemma infer_ints:
  assumes "xs \<noteq> []"
  shows "infer_postgres_type (IntSeries xs) =
           (if \<forall>x \<in> set xs. - 2147483648 \<le> x \<and> x \<le> 2147483647 then ''INTEGER'' else ''BIGINT'')"
proof -
  have "(- 2147483648 \<le> minimum xs \<and> maximum xs \<le> 2147483647)
        = (\<forall>x \<in> set xs. - 2147483648 \<le> x \<and> x \<le> 2147483647)"
    using assms by (auto simp: maximum_le minimum_ge)
  then show ?thesis
    using assms by (simp add: infer_postgres_type_def dropna_ints the_int_PInt Let_def)
qed

lemma str_int_255: "str_int 255 = ''255''"
  by code_simp

lemma sanitize_id_name: "sanitize_name ''id'' = ''id''" "sanitize_name ''name'' = ''name''"
  by code_simp+

lemma isna_not_str: "isna v \<Longrightarrow> \<not> isinstance_str v"
  by (cases v) auto

lemma escape_int:
  "t = ''INTEGER'' \<or> t = ''BIGINT'' \<Longrightarrow> escape_sql_value (PInt i) t = Inr (str_int i)"
  by (auto simp: escape_sql_value_def)

lemma escape_text: "escape_sql_value v ''TEXT'' = Inr (text_literal v)"
proof -
  have "isna v" if "v = PNone" using that by simp
  then show ?thesis
    by (auto simp: escape_sql_value_def text_literal_def sublist_INTEGER_TEXT)
qed

lemma text_literal_form: "text_literal v = ''NULL'' \<or> well_formed_literal (text_literal v)"
  by (simp add: text_literal_def well_formed_quoted quotes_paired_double_quotes)

lemma infer_ints_cases:
  "xs \<noteq> [] \<Longrightarrow> infer_postgres_type (IntSeries xs) = ''INTEGER'' \<or> infer_postgres_type (IntSeries xs) = ''BIGINT''"
  by (simp add: infer_ints)

lemma batch_three: "concat (map (batch_rows 3) (batch_starts 3)) = [0, 1, 2]"
  by code_simp

lemma string_dtype_dropna:
  assumes "is_string_dtype s" "v \<in> set (dropna s)"
  shows "isinstance_str v"
proof (cases s)
  case (StrSeries xs)
  with assms(2) obtain x where "v = str_or_nan x" "\<not> isna (str_or_nan x)"
    by (auto simp: dropna_def)
  then show ?thesis by (cases x) auto
next
  case (ObjectSeries xs)
  with assms show ?thesis by (auto simp: dropna_def list_all_iff)
qed (use assms in auto)

lemma string_dtype_others:
  "is_string_dtype s \<Longrightarrow>
   \<not> is_integer_dtype s \<and> \<not> is_float_dtype s \<and> \<not> is_bool_dtype s \<and> \<not> is_datetime64_any_dtype s"
  by (cases s) auto

lemma infer_strings:
  assumes "is_string_dtype s" "dropna s \<noteq> []"
  shows "infer_postgres_type s =
           (if maximum (map (\<lambda>v. int (length (str v))) (dropna s)) \<le> 255
            then ''VARCHAR('' @ str_int (max 255 (maximum (map (\<lambda>v. int (length (str v))) (dropna s)))) @ '')''
            else ''TEXT'')"
  using assms string_dtype_others [of s] by (simp add: infer_postgres_type_def Let_def)

lemma infer_not_string:
  assumes "text_column s" "\<not> is_string_dtype s"
  shows "infer_postgres_type s = ''TEXT''"
  using assms by (cases s) (auto simp: infer_postgres_type_def Let_def)

lemma sublist_VARCHAR: "\<not> sublist ''INTEGER'' ''VARCHAR(255)''" "\<not> sublist ''BIGINT'' ''VARCHAR(255)''"
  by code_simp+

lemma escape_varchar: "escape_sql_value v ''VARCHAR(255)'' = Inr (text_literal v)"
proof -
  have "isna v" if "v = PNone" using that by simp
  then show ?thesis
    by (auto simp: escape_sql_value_def text_literal_def sublist_VARCHAR)
qed

lemma text_column_dtype: "text_column s \<Longrightarrow> \<not> is_integer_dtype s \<and> \<not> is_float_dtype s"
  by (cases s) auto

lemma text_column_type:
  assumes "text_column s" "dropna s \<noteq> []"
  shows "infer_postgres_type s =
           (if is_string_dtype s \<and> (\<forall>v \<in> set (dropna s). length (str v) \<le> 255)
            then ''VARCHAR(255)'' else ''TEXT'')"
proof (cases "is_string_dtype s")
  case True
  have "(maximum (map (\<lambda>v. int (length (str v))) (dropna s)) \<le> 255)
        = (\<forall>v \<in> set (dropna s). length (str v) \<le> 255)"
    using assms(2) by (simp add: maximum_le)
  with True assms(2) show ?thesis by (simp add: infer_strings str_int_255 max_absorb1)
next
  case False
  with assms(1) show ?thesis by (simp add: infer_not_string)
qed

lemma three_rows_lines:
  assumes vals: "values_of s = [n1, n2, n3]"
    and col: "text_column s"
    and null: "\<exists>n \<in> set [n1, n2, n3]. isna n"
    and nonnull: "dropna s \<noteq> []"
  shows "sql_lines file_name stem table_name_prefix now [(''id'', IntSeries [i1, i2, i3]), (''name'', s)] =
         Inr (expected_lines file_name now (table_name_of stem table_name_prefix)
                (infer_postgres_type (IntSeries [i1, i2, i3])) (infer_postgres_type s)
                [i1, i2, i3] [n1, n2, n3])"
proof -
  let ?df = "[(''id'', IntSeries [i1, i2, i3]), (''name'', s)]"
  let ?t = "table_name_of stem table_name_prefix"
  let ?T = "infer_postgres_type (IntSeries [i1, i2, i3])"
  let ?N = "infer_postgres_type s"
  have rows: "nrows ?df = 3" by (simp add: nrows_def)
  then have ne: "\<not> empty ?df" by (simp add: empty_def)
  have T: "?T = ''INTEGER'' \<or> ?T = ''BIGINT''" by (rule infer_ints_cases) simp
  have N: "?N = ''TEXT'' \<or> ?N = ''VARCHAR(255)''"
    using text_column_type [OF col nonnull] by auto
  have nn: "nullable_clause s = ''NULL''"
    using null vals by (simp add: nullable_clause_def isna_any_def list_ex_iff)
  have ni: "nullable_clause (IntSeries [i1, i2, i3]) = ''NOT NULL''"
    by (simp add: nullable_clause_def isna_any_def)
  have infos: "columns_info ?df =
      [\<lparr>name = ''id'', type = ?T, original = ''id''\<rparr>, \<lparr>name = ''name'', type = ?N, original = ''name''\<rparr>]"
    using ne by (simp add: columns_info_def column_type_def sanitize_id_name)
  have cols: "column_lines ?df = [''    id '' @ ?T @ '' NOT NULL'', ''    name '' @ ?N @ '' NULL'']"
    using ne by (simp add: column_lines_def column_type_def column_nullable_def sanitize_id_name nn ni)
  have up: "\<not> upcast_to_float ?df"
    using text_column_dtype [OF col] by (simp add: upcast_to_float_def)
  have e: "escape_sql_value n ?N = Inr (text_literal n)" for n
    using N by (auto simp: escape_text escape_varchar)
  have line: "insert_line ?t (columns_info ?df) [PInt i, n] = Inr (insert_statement ?t i n)" for i n
    using T by (auto simp: infos insert_line_def escape_int e insert_statement_def)
  have r0: "row_values ?df 0 = [PInt i1, n1]" and r1: "row_values ?df (Suc 0) = [PInt i2, n2]"
    and r2: "row_values ?df 2 = [PInt i3, n3]"
    using up vals by (simp_all add: row_values_def)
  have ins: "insert_lines ?t ?df = Inr [insert_statement ?t i1 n1, insert_statement ?t i2 n2, insert_statement ?t i3 n3]"
    unfolding insert_lines_def rows batch_three by (simp add: r0 r1 r2 line)
  have comments: "comment_lines ?t (columns_info ?df) =
      [''COMMENT ON COLUMN '' @ ?t @ ''.id IS 'id';'' @ [newline],
       ''COMMENT ON COLUMN '' @ ?t @ ''.name IS 'name';'' @ [newline]]"
    unfolding infos by (simp add: comment_lines_def quoted_def double_quotes_def quote_def)
  show ?thesis
    unfolding sql_lines_def Let_def rows ins comments cols expected_lines_def using ne by simp
qed

lemma expected_inserts:
  "filter (prefix ''INSERT'') (expected_lines file_name now t id_type name_type [i1, i2, i3] [n1, n2, n3])
   = [insert_statement t i1 n1, insert_statement t i2 n2, insert_statement t i3 n3]"
proof -
  have "prefix ''INSERT'' (insert_statement t i n)" for i n
    by (simp add: insert_statement_def)
  then show ?thesis by (simp add: expected_lines_def newline_def)
qed

lemma one_null_some: "length (filter isna ns) = 1 \<Longrightarrow> \<exists>n \<in> set ns. isna n"
  by (metis filter_False length_0_conv zero_neq_one)

lemma three_with_null_rest:
  assumes "values_of s = [n1, n2, n3]" "length (filter isna [n1, n2, n3]) = 1"
  shows "dropna s \<noteq> []"
proof
  assume "dropna s = []"
  then have "filter (\<lambda>v. \<not> isna v) (values_of s) = []" by (simp only: dropna_def)
  then have "\<forall>n \<in> set (values_of s). isna n" unfolding filter_empty_conv by simp
  then have "filter isna [n1, n2, n3] = [n1, n2, n3]" unfolding assms(1) by simp
  with assms(2) show False by simp
qed

lemma object_with_null_not_string:
  "\<exists>n \<in> set xs. isna n \<Longrightarrow> \<not> is_string_dtype (ObjectSeries xs)"
  using isna_not_str by (auto simp: list_all_iff)


section \<open>Properties of the schema fetch steps\<close>

lemma try_except_returns: "\<exists>x. fst (try_except m d c) = Inr x"
  by (simp add: try_except_def split: prod.split sum.split)

lemma try_except_fails: "fst (m c) = Inl e \<Longrightarrow> fst (try_except m d c) = Inr d"
  by (cases "m c") (auto simp: try_except_def)

lemma try_except_succeeds: "fst (m c) = Inr x \<Longrightarrow> fst (try_except m d c) = Inr x"
  by (cases "m c") (auto simp: try_except_def)

lemma try_except_conn: "snd (try_except m d c) = snd (m c)"
  by (simp add: try_except_def split: prod.split sum.split)

lemma colunas_body_result:
  "fst (obter_colunas_body schema tabela conn) =
     (if cursor_raises conn then Inl DatabaseError
      else case replies conn of Returns rows # rest \<Rightarrow> Inr rows | _ \<Rightarrow> Inl DatabaseError)"
  by (simp add: obter_colunas_body_def bind_def cursor_def execute_fetchall_def
      split: list.split reply.split)

lemma indices_body_result:
  "fst (obter_indices_body schema tabela conn) =
     (if cursor_raises conn then Inl DatabaseError
      else case replies conn of Returns rows # rest \<Rightarrow> Inr rows | _ \<Rightarrow> Inl DatabaseError)"
  by (simp add: obter_indices_body_def bind_def cursor_def execute_fetchall_def
      split: list.split reply.split)

lemma bind_fails: "fst (m c) = Inl e \<Longrightarrow> fst (bind m f c) = Inl e"
  by (cases "m c") (auto simp: bind_def)

lemma execute_fetchall_fails:
  "replies c = [] \<or> (\<exists>b rest. replies c = Raises b # rest) \<Longrightarrow>
   fst (execute_fetchall q c) = Inl DatabaseError"
  by (auto simp: execute_fetchall_def)

lemma bind_cursor: "\<not> cursor_raises c \<Longrightarrow> bind cursor g c = g () c"
  by (simp add: bind_def cursor_def)

lemma bind_returns: "m c = (Inr x, c') \<Longrightarrow> bind m f c = f x c'"
  by (simp add: bind_def)

lemma first_fields_replies: "replies (snd (first_fields rs c)) = replies c"
proof (induction rs arbitrary: c)
  case Nil
  then show ?case by (simp add: return_def)
next
  case (Cons r rs)
  show ?case
  proof (cases r)
    case Nil
    then show ?thesis by (simp add: first_field_def raise_def bind_def)
  next
    case (Cons x xs)
    then have "first_fields (r # rs) c =
        (case first_fields rs c of (Inl e, c') \<Rightarrow> (Inl e, c') | (Inr ys, c') \<Rightarrow> (Inr (x # ys), c'))"
      by (simp add: first_field_def return_def bind_def)
    then show ?thesis using Cons.IH [of c]
      by (cases "first_fields rs c") (auto split: sum.split)
  qed
qed

lemma constraints_body_fails:
  assumes "cursor_raises conn \<or> replies conn = [] \<or> (\<exists>b rest. replies conn = Raises b # rest)
           \<or> (\<exists>pk b rest. replies conn = Returns pk # Raises b # rest)"
  shows "\<exists>e. fst (obter_constraints_body schema tabela conn) = Inl e"
proof (cases "cursor_raises conn")
  case True
  then have "fst (cursor conn) = Inl DatabaseError" by (simp add: cursor_def)
  then show ?thesis unfolding obter_constraints_body_def using bind_fails by blast
next
  case False
  then have cur: "cursor conn = (Inr (), conn)" by (simp add: cursor_def)
  from assms False consider
    (first) "replies conn = [] \<or> (\<exists>b rest. replies conn = Raises b # rest)"
    | (second) pk b rest where "replies conn = Returns pk # Raises b # rest" by blast
  then show ?thesis
  proof cases
    case first
    then have "fst (execute_fetchall (PrimaryKeyQuery schema tabela) conn) = Inl DatabaseError"
      by (rule execute_fetchall_fails)
    then show ?thesis
      unfolding obter_constraints_body_def bind_cursor [OF False] using bind_fails by blast
  next
    case second
    let ?c1 = "conn\<lparr>replies := Raises b # rest\<rparr>"
    have q1: "execute_fetchall (PrimaryKeyQuery schema tabela) conn = (Inr pk, ?c1)"
      using second by (simp add: execute_fetchall_def)
    have b1: "bind (execute_fetchall (PrimaryKeyQuery schema tabela)) f conn = f pk ?c1" for f :: "row list \<Rightarrow> constraints db"
      using q1 by (simp add: bind_def)
    obtain r c2 where ff: "first_fields pk ?c1 = (r, c2)" by (cases "first_fields pk ?c1") auto
    then have "replies c2 = Raises b # rest" using first_fields_replies [of pk ?c1] by simp
    then have q2: "fst (execute_fetchall (ForeignKeyQuery schema tabela) c2) = Inl DatabaseError"
      by (simp add: execute_fetchall_def)
    show ?thesis
    proof (cases r)
      case (Inl e)
      then have "fst (first_fields pk ?c1) = Inl e" using ff by simp
      then show ?thesis
        unfolding obter_constraints_body_def bind_cursor [OF False] b1
        using bind_fails by blast
    next
      case (Inr pks)
      then have b2: "bind (first_fields pk) g ?c1 = g pks c2" for g :: "field list \<Rightarrow> constraints db"
        using ff by (simp add: bind_def)
      have b3: "fst (bind (execute_fetchall (ForeignKeyQuery schema tabela)) h c2) = Inl DatabaseError"
        for h :: "row list \<Rightarrow> constraints db"
        using q2 by (cases "execute_fetchall (ForeignKeyQuery schema tabela) c2") (auto simp: bind_def)
      show ?thesis
        unfolding obter_constraints_body_def bind_cursor [OF False] b1 b2 using b3 by blast
    qed
  qed
qed

text \<open>
  Claim C7. The name sanitizer is idempotent: sanitizing a sanitized name changes nothing,
  for every string.
\<close>

theorem sanitize_name_idempotent: "sanitize_name (sanitize_name x) = sanitize_name x"
proof -
  let ?r = "sanitize_name x"
  have "name_core ?r = ?r" using sanitize_name_normal [of x] by (simp add: name_core_id)
  then show ?thesis
    using sanitize_name_normal [of x] by (simp add: sanitize_name_core [of ?r])
qed

theorem sanitize_name_idempotent_witness:
  "sanitize_name (sanitize_name '' 9 Lives__(new) '') = ''t_9_lives_new''"
proof -
  have "sanitize_name '' 9 Lives__(new) '' = ''t_9_lives_new''" by code_simp
  with sanitize_name_idempotent [of "'' 9 Lives__(new) ''"] show ?thesis by simp
qed

text \<open>
  Claim C8. For every input string the result of the sanitizer is not empty, consists of
  the characters a to z, 0 to 9 and underscore only (so it is in lower case), and does not
  start with a digit: when the name left after stripping starts with a digit, the result is
  that name behind the prefix \<open>t_\<close>, and when nothing is left after stripping, the result is
  \<open>unnamed\<close>. The three examples of the specification evaluate as stated.
\<close>

theorem sanitize_name_invariants:
  "sanitize_name x \<noteq> []
   \<and> (\<forall>c \<in> set (sanitize_name x). is_ident_char c)
   \<and> lower (sanitize_name x) = sanitize_name x
   \<and> \<not> is_ascii_digit (hd (sanitize_name x))
   \<and> (name_core x \<noteq> [] \<and> isdigit (hd (name_core x)) \<longrightarrow> sanitize_name x = ''t_'' @ name_core x)
   \<and> (name_core x = [] \<longrightarrow> sanitize_name x = ''unnamed'')
   \<and> sanitize_name ''Client ID#1'' = ''client_id1''
   \<and> sanitize_name ''123abc'' = ''t_123abc''
   \<and> sanitize_name ''!!!'' = ''unnamed''"
proof -
  let ?r = "sanitize_name x"
  have n: "normal_name ?r" and ne: "?r \<noteq> []" and nd: "\<not> isdigit (hd ?r)"
    using sanitize_name_normal [of x] by simp_all
  have ids: "\<forall>c \<in> set ?r. is_ident_char c" using n by (simp add: normal_name_def)
  then have low: "lower ?r = ?r" by (simp add: lower_def ident_lower map_idI)
  have "\<not> is_ascii_digit (hd ?r)" using nd by (simp add: isdigit_def)
  moreover have "sanitize_name ''Client ID#1'' = ''client_id1''" by code_simp
  moreover have "sanitize_name ''123abc'' = ''t_123abc''" by code_simp
  moreover have "sanitize_name ''!!!'' = ''unnamed''" by code_simp
  ultimately show ?thesis
    using ne ids low by (simp add: sanitize_name_core)
qed

theorem sanitize_name_invariants_witness:
  "name_core ''123abc'' \<noteq> [] \<and> isdigit (hd (name_core ''123abc''))
   \<and> sanitize_name ''123abc'' = ''t_'' @ name_core ''123abc''
   \<and> name_core ''!!!'' = [] \<and> sanitize_name ''!!!'' = ''unnamed''
   \<and> list_all is_ident_char (sanitize_name ''123abc'')"
proof -
  have 1: "name_core ''123abc'' \<noteq> [] \<and> isdigit (hd (name_core ''123abc''))" by code_simp
  have 2: "name_core ''!!!'' = []" by code_simp
  from sanitize_name_invariants [of "''123abc''"] sanitize_name_invariants [of "''!!!''"] 1 2
  show ?thesis unfolding list_all_iff by blast
qed

text \<open>
  Claim C3. The value escaper of the CSV converter never raises: for every value and every
  column type it returns a literal. A missing value (\<open>None\<close>, not-a-number, \<open>NaT\<close>) gives
  \<open>NULL\<close> whatever the type. For the types INTEGER, BIGINT and NUMERIC a value that is
  not a number already and that \<open>float\<close> rejects gives \<open>NULL\<close>; so does the text
  \<open>not-a-number\<close> with type INTEGER.
\<close>

theorem escape_sql_value_total:
  "(\<exists>s. escape_sql_value v t = Inr s)
   \<and> (isna v \<longrightarrow> escape_sql_value v t = Inr ''NULL'')
   \<and> ((t = ''INTEGER'' \<or> t = ''BIGINT'' \<or> t = ''NUMERIC'') \<and> \<not> isna v \<and> \<not> is_numeric_type v
        \<and> float v = Inl e \<longrightarrow> escape_sql_value v t = Inr ''NULL'')
   \<and> float (PStr ''not-a-number'') = Inl ValueError
   \<and> escape_sql_value (PStr ''not-a-number'') ''INTEGER'' = Inr ''NULL''"
proof -
  have p: "float_of_str ''not-a-number'' = None" by code_simp
  then have f: "float (PStr ''not-a-number'') = Inl ValueError" by simp
  then have "escape_sql_value (PStr ''not-a-number'') ''INTEGER'' = Inr ''NULL''"
    by (simp add: escape_numeric)
  then show ?thesis
    using f escape_sql_value_returns [of v t] by (auto simp: escape_sql_value_null escape_numeric)
qed

theorem escape_sql_value_total_witness:
  "isna (PFloat Nan) \<and> escape_sql_value (PFloat Nan) ''NUMERIC'' = Inr ''NULL''
   \<and> \<not> isna (PStr ''abc'') \<and> \<not> is_numeric_type (PStr ''abc'') \<and> float (PStr ''abc'') = Inl ValueError
   \<and> escape_sql_value (PStr ''abc'') ''BIGINT'' = Inr ''NULL''"
proof -
  have "float_of_str ''abc'' = None" by code_simp
  then have f: "float (PStr ''abc'') = Inl ValueError" by simp
  from escape_sql_value_total [of "PFloat Nan" "''NUMERIC''"]
    escape_sql_value_total [of "PStr ''abc''" "''BIGINT''" ValueError] f
  show ?thesis by simp
qed

text \<open>
  Claim C4, as the specification states it, fails: in the CSV and spreadsheet escaper the
  texts \<open>t\<close>, \<open>y\<close> and \<open>s\<close> with type BOOLEAN render \<open>FALSE\<close>, and the integer \<open>1\<close>, which
  is neither a boolean nor a string, renders \<open>TRUE\<close>.
\<close>

theorem boolean_set_counterexample:
  "escape_sql_value (PStr ''t'') ''BOOLEAN'' = Inr ''FALSE''
   \<and> escape_sql_value (PStr ''y'') ''BOOLEAN'' = Inr ''FALSE''
   \<and> escape_sql_value (PStr ''s'') ''BOOLEAN'' = Inr ''FALSE''
   \<and> escape_sql_value (PInt 1) ''BOOLEAN'' = Inr ''TRUE''"
  by code_simp

text \<open>
  Claim C4, amended. A native boolean renders \<open>TRUE\<close> or \<open>FALSE\<close>. Any other value is
  compared through its text \<open>str(value)\<close>, without regard to case: in the CSV and
  spreadsheet escaper (type BOOLEAN) a value that is not missing renders \<open>TRUE\<close> when its
  text is one of \<open>true\<close>, \<open>1\<close>, \<open>yes\<close>, \<open>sim\<close>; in the DBF escaper (logical field \<open>L\<close>) a
  value other than \<open>None\<close> renders \<open>TRUE\<close> when its text is one of \<open>true\<close>, \<open>1\<close>, \<open>yes\<close>,
  \<open>sim\<close>, \<open>t\<close>, \<open>y\<close>, \<open>s\<close>; every other such value renders \<open>FALSE\<close>.
\<close>

theorem boolean_rendering:
  "escape_sql_value (PBool b) ''BOOLEAN'' = Inr (if b then ''TRUE'' else ''FALSE'')
   \<and> (\<not> isna v \<and> \<not> isinstance_bool v \<longrightarrow>
        escape_sql_value v ''BOOLEAN'' =
          Inr (if \<exists>w \<in> set [''true'', ''1'', ''yes'', ''sim'']. caseless_eq (str v) w
               then ''TRUE'' else ''FALSE''))
   \<and> dbc_escape_sql_value (PBool b) ''L'' = Inr (if b then ''TRUE'' else ''FALSE'')
   \<and> (v \<noteq> PNone \<and> \<not> isinstance_bool v \<longrightarrow>
        dbc_escape_sql_value v ''L'' =
          Inr (if \<exists>w \<in> set [''true'', ''1'', ''yes'', ''sim'', ''t'', ''y'', ''s'']. caseless_eq (str v) w
               then ''TRUE'' else ''FALSE''))"
proof -
  have 1: "escape_sql_value (PBool b) ''BOOLEAN'' = Inr (if b then ''TRUE'' else ''FALSE'')"
    by (simp add: escape_sql_value_def)
  have 2: "escape_sql_value v ''BOOLEAN'' =
          Inr (if \<exists>w \<in> set [''true'', ''1'', ''yes'', ''sim'']. caseless_eq (str v) w
               then ''TRUE'' else ''FALSE'')"
    if "\<not> isna v" "\<not> isinstance_bool v"
  proof -
    have "v \<noteq> PNone" using that(1) by auto
    then show ?thesis
      using that affirmative_csv [of "str v"] by (simp add: escape_sql_value_def)
  qed
  have 3: "dbc_escape_sql_value (PBool b) ''L'' = Inr (if b then ''TRUE'' else ''FALSE'')"
    by (simp add: dbc_escape_sql_value_def upper_L Let_def)
  have 4: "dbc_escape_sql_value v ''L'' =
          Inr (if \<exists>w \<in> set [''true'', ''1'', ''yes'', ''sim'', ''t'', ''y'', ''s'']. caseless_eq (str v) w
               then ''TRUE'' else ''FALSE'')"
    if "v \<noteq> PNone" "\<not> isinstance_bool v"
    using that affirmative_dbc [of "str v"] by (simp add: dbc_escape_sql_value_def upper_L Let_def)
  from 1 2 3 4 show ?thesis by blast
qed

theorem boolean_rendering_witness:
  "\<not> isna (PStr ''Sim'') \<and> \<not> isinstance_bool (PStr ''Sim'')
   \<and> escape_sql_value (PStr ''Sim'') ''BOOLEAN'' = Inr ''TRUE''
   \<and> dbc_escape_sql_value (PStr ''Sim'') ''L'' = Inr ''TRUE''
   \<and> escape_sql_value (PBool False) ''BOOLEAN'' = Inr ''FALSE''"
proof -
  have "caseless_eq ''Sim'' ''sim''" by code_simp
  then have "\<exists>w \<in> set [''true'', ''1'', ''yes'', ''sim'']. caseless_eq (str (PStr ''Sim'')) w"
    and "\<exists>w \<in> set [''true'', ''1'', ''yes'', ''sim'', ''t'', ''y'', ''s'']. caseless_eq (str (PStr ''Sim'')) w"
    by simp_all
  with boolean_rendering [of False "PStr ''Sim''"] show ?thesis by simp
qed

text \<open>
  Claim C9. For the types INTEGER, BIGINT and NUMERIC the escaper of the CSV and spreadsheet
  converters renders a value that is not a number already, and that \<open>float\<close> accepts, as
  \<open>str(float(value))\<close>. So for every non-empty string of digits and type INTEGER the literal
  is the text of the nearest double, which always holds a character that is not a digit
  and therefore differs from the digits given: \<open>42\<close> becomes \<open>42.0\<close>.
\<close>

theorem escape_numeric_as_float:
  "((t = ''INTEGER'' \<or> t = ''BIGINT'' \<or> t = ''NUMERIC'') \<and> \<not> isna v \<and> \<not> is_numeric_type v
      \<and> float v = Inr f \<longrightarrow> escape_sql_value v t = Inr (str_float f))
   \<and> (s \<noteq> [] \<and> (\<forall>c \<in> set s. is_ascii_digit c) \<longrightarrow>
        float (PStr s) = Inr (float_of_decimal False (int_of_digits s) 0)
        \<and> escape_sql_value (PStr s) ''INTEGER'' = Inr (str_float (float_of_decimal False (int_of_digits s) 0))
        \<and> (\<exists>c \<in> set (str_float (float_of_decimal False (int_of_digits s) 0)). \<not> is_ascii_digit c)
        \<and> escape_sql_value (PStr s) ''INTEGER'' \<noteq> Inr s)
   \<and> escape_sql_value (PStr ''42'') ''INTEGER'' = Inr ''42.0''"
proof -
  have 1: "escape_sql_value v t = Inr (str_float f)"
    if "t = ''INTEGER'' \<or> t = ''BIGINT'' \<or> t = ''NUMERIC''" "\<not> isna v" "\<not> is_numeric_type v"
      "float v = Inr f"
    using that by (simp add: escape_numeric)
  have 2: "float (PStr s) = Inr (float_of_decimal False (int_of_digits s) 0)
        \<and> escape_sql_value (PStr s) ''INTEGER'' = Inr (str_float (float_of_decimal False (int_of_digits s) 0))
        \<and> (\<exists>c \<in> set (str_float (float_of_decimal False (int_of_digits s) 0)). \<not> is_ascii_digit c)
        \<and> escape_sql_value (PStr s) ''INTEGER'' \<noteq> Inr s"
    if d: "s \<noteq> []" "\<forall>c \<in> set s. is_ascii_digit c"
  proof -
    let ?f = "float_of_decimal False (int_of_digits s) 0"
    have f: "float (PStr s) = Inr ?f" using d by (simp add: float_of_str_digits)
    then have e: "escape_sql_value (PStr s) ''INTEGER'' = Inr (str_float ?f)"
      by (simp add: escape_numeric)
    obtain c where c: "c \<in> set (str_float ?f)" "\<not> is_ascii_digit c"
      using str_float_not_digits [of ?f] by blast
    then have "str_float ?f \<noteq> s" using d(2) by auto
    with f e c show ?thesis by auto
  qed
  have "float_of_str ''42'' = Some (Fin False 5910974510923776 (- 47))" by code_simp
  moreover have "str_float (Fin False 5910974510923776 (- 47)) = ''42.0''" by code_simp
  ultimately have 3: "escape_sql_value (PStr ''42'') ''INTEGER'' = Inr ''42.0''"
    by (simp add: escape_numeric)
  from 1 2 3 show ?thesis by blast
qed

theorem escape_numeric_as_float_witness:
  "list_all is_ascii_digit ''2024'' \<and> float (PStr ''2024'') = Inr (Fin False 8901646138474496 (- 42))
   \<and> escape_sql_value (PStr ''2024'') ''INTEGER'' = Inr ''2024.0''
   \<and> \<not> is_numeric_type (PStr ''1e3'') \<and> float (PStr ''1e3'') = Inr (Fin False 8796093022208000 (- 43))
   \<and> escape_sql_value (PStr ''1e3'') ''NUMERIC'' = Inr ''1000.0''"
proof -
  have d: "list_all is_ascii_digit ''2024''" by code_simp
  then have d': "\<forall>c \<in> set ''2024''. is_ascii_digit c" unfolding list_all_iff .
  have v: "float_of_decimal False (int_of_digits ''2024'') 0 = Fin False 8901646138474496 (- 42)"
    by code_simp
  have r: "str_float (Fin False 8901646138474496 (- 42)) = ''2024.0''" by code_simp
  have "float_of_str ''1e3'' = Some (Fin False 8796093022208000 (- 43))" by code_simp
  then have f: "float (PStr ''1e3'') = Inr (Fin False 8796093022208000 (- 43))" by simp
  have r2: "str_float (Fin False 8796093022208000 (- 43)) = ''1000.0''" by code_simp
  from escape_numeric_as_float [of "''NUMERIC''" "PStr ''1e3''" "Fin False 8796093022208000 (- 43)" "''2024''"]
    d d' v r f r2
  show ?thesis by simp
qed







text \<open>
  Claim C6, as stated, fails. Take the table of the rows (1, Ann), (2, missing), (3, Bob)
  with the \<open>name\<close> column of string dtype. Its three names are not longer than 255
  characters, so the column is declared \<open>name VARCHAR(255) NULL\<close>, and no line
  \<open>name TEXT NULL\<close> is written.
\<close>

theorem name_column_type_counterexample:
  "sql_lines ''people.csv'' ''people'' [] ''2024-01-02 03:04:05''
     [(''id'', IntSeries [1, 2, 3]), (''name'', StrSeries [Some ''Ann'', None, Some ''Bob''])]
   = Inr (expected_lines ''people.csv'' ''2024-01-02 03:04:05'' ''people'' ''INTEGER'' ''VARCHAR(255)''
            [1, 2, 3] [PStr ''Ann'', PFloat Nan, PStr ''Bob''])
   \<and> expected_lines ''people.csv'' ''2024-01-02 03:04:05'' ''people'' ''INTEGER'' ''VARCHAR(255)''
            [1, 2, 3] [PStr ''Ann'', PFloat Nan, PStr ''Bob''] ! 5 = ''    name VARCHAR(255) NULL''
   \<and> ''    name TEXT NULL'' \<notin> set (expected_lines ''people.csv'' ''2024-01-02 03:04:05'' ''people''
            ''INTEGER'' ''VARCHAR(255)'' [1, 2, 3] [PStr ''Ann'', PFloat Nan, PStr ''Bob''])"
proof -
  let ?s = "StrSeries [Some ''Ann'', None, Some ''Bob'']"
  have d: "dropna ?s = [PStr ''Ann'', PStr ''Bob'']" by (simp add: dropna_def)
  have n: "infer_postgres_type ?s = ''VARCHAR(255)''"
    by (simp add: text_column_type d)
  have i: "infer_postgres_type (IntSeries [1, 2, 3]) = ''INTEGER''" by (simp add: infer_ints)
  have t: "table_name_of ''people'' [] = ''people''" by code_simp
  have "sql_lines ''people.csv'' ''people'' [] ''2024-01-02 03:04:05'' [(''id'', IntSeries [1, 2, 3]), (''name'', ?s)]
        = Inr (expected_lines ''people.csv'' ''2024-01-02 03:04:05'' ''people'' ''INTEGER'' ''VARCHAR(255)''
            [1, 2, 3] [PStr ''Ann'', PFloat Nan, PStr ''Bob''])"
    using three_rows_lines [of ?s "PStr ''Ann''" "PFloat Nan" "PStr ''Bob''" "''people.csv''" "''people''" "[]"
        "''2024-01-02 03:04:05''" 1 2 3]
    by (simp add: d n i t)
  then show ?thesis by (simp add: expected_lines_def insert_statement_def newline_def)
qed

text \<open>
  Claim C6, amended. Take a table of three rows and two columns: \<open>id\<close> with integers and
  \<open>name\<close> a text column (string dtype, or dtype \<open>object\<close> with every element a \<open>str\<close> or
  missing), exactly one name missing. \<open>csv_to_sql\<close> succeeds and writes the lines shown: the
  \<open>CREATE TABLE\<close> statement first, in which the \<open>name\<close> column is nullable and has the type
  \<open>VARCHAR(255)\<close> when the column is of string dtype and no name is longer than 255
  characters, and the type \<open>TEXT\<close> otherwise (in particular for every column of dtype
  \<open>object\<close>, which with a missing value among its elements is not string-like); then
  exactly three \<open>INSERT\<close> statements, one per row in order, where the name is \<open>NULL\<close> or a
  well-formed quoted literal.
\<close>

theorem three_row_table:
  assumes col: "text_column names"
    and vals: "values_of names = [n1, n2, n3]"
    and one_null: "length (filter isna [n1, n2, n3]) = 1"
  shows "\<exists>lines name_type.
           sql_lines file_name stem table_name_prefix now
             [(''id'', IntSeries [i1, i2, i3]), (''name'', names)] = Inr lines
         \<and> lines = expected_lines file_name now (table_name_of stem table_name_prefix)
                     (infer_postgres_type (IntSeries [i1, i2, i3])) name_type [i1, i2, i3] [n1, n2, n3]
         \<and> name_type =
             (if is_string_dtype names \<and> (\<forall>v \<in> set (dropna names). length (str v) \<le> 255)
              then ''VARCHAR(255)'' else ''TEXT'')
         \<and> ((\<exists>xs. names = ObjectSeries xs) \<longrightarrow> name_type = ''TEXT'')
         \<and> lines ! 3 = ''CREATE TABLE IF NOT EXISTS '' @ table_name_of stem table_name_prefix @ '' ('' @ [newline]
         \<and> lines ! 5 = ''    name '' @ name_type @ '' NULL''
         \<and> filter (prefix ''INSERT'') lines =
             [insert_statement (table_name_of stem table_name_prefix) i1 n1,
              insert_statement (table_name_of stem table_name_prefix) i2 n2,
              insert_statement (table_name_of stem table_name_prefix) i3 n3]
         \<and> drop 12 lines = filter (prefix ''INSERT'') lines
         \<and> (\<forall>n \<in> set [n1, n2, n3]. text_literal n = ''NULL'' \<or> well_formed_literal (text_literal n))
         \<and> csv_to_sql file_name stem table_name_prefix now
               (Inr [(''id'', IntSeries [i1, i2, i3]), (''name'', names)]) None
             = (True, Some (concat lines))"
proof -
  let ?t = "table_name_of stem table_name_prefix"
  let ?N = "infer_postgres_type names"
  let ?lines = "expected_lines file_name now ?t (infer_postgres_type (IntSeries [i1, i2, i3])) ?N
                  [i1, i2, i3] [n1, n2, n3]"
  have null: "\<exists>n \<in> set [n1, n2, n3]. isna n" using one_null by (rule one_null_some)
  have rest: "dropna names \<noteq> []" using vals one_null by (rule three_with_null_rest)
  have lines: "sql_lines file_name stem table_name_prefix now
                 [(''id'', IntSeries [i1, i2, i3]), (''name'', names)] = Inr ?lines"
    using vals col null rest by (rule three_rows_lines)
  have N: "?N = (if is_string_dtype names \<and> (\<forall>v \<in> set (dropna names). length (str v) \<le> 255)
                 then ''VARCHAR(255)'' else ''TEXT'')"
    using col rest by (rule text_column_type)
  have obj: "?N = ''TEXT''" if "\<exists>xs. names = ObjectSeries xs"
  proof -
    from that obtain xs where xs: "names = ObjectSeries xs" by blast
    with vals have "xs = [n1, n2, n3]" by simp
    then have "\<not> is_string_dtype names" using null xs object_with_null_not_string by blast
    with N show ?thesis by simp
  qed
  have l3: "?lines ! 3 = ''CREATE TABLE IF NOT EXISTS '' @ ?t @ '' ('' @ [newline]"
    and l5: "?lines ! 5 = ''    name '' @ ?N @ '' NULL''"
    by (simp_all add: expected_lines_def)
  have ins: "filter (prefix ''INSERT'') ?lines =
      [insert_statement ?t i1 n1, insert_statement ?t i2 n2, insert_statement ?t i3 n3]"
    by (rule expected_inserts)
  have tail: "drop 12 ?lines = filter (prefix ''INSERT'') ?lines"
    unfolding ins by (simp add: expected_lines_def)
  have lits: "\<forall>n \<in> set [n1, n2, n3]. text_literal n = ''NULL'' \<or> well_formed_literal (text_literal n)"
    using text_literal_form by blast
  have written: "csv_to_sql file_name stem table_name_prefix now
               (Inr [(''id'', IntSeries [i1, i2, i3]), (''name'', names)]) None = (True, Some (concat ?lines))"
    by (simp add: csv_to_sql_def lines)
  from lines N obj l3 l5 ins tail lits written show ?thesis by blast
qed

theorem three_row_table_witness:
  "text_column (ObjectSeries [PStr ''Ann'', PFloat Nan, PStr ''Bob''])
   \<and> length (filter isna [PStr ''Ann'', PFloat Nan, PStr ''Bob'']) = 1
   \<and> map_sum id (\<lambda>lines. lines ! 5 # filter (prefix ''INSERT'') lines)
        (sql_lines ''people.csv'' ''people'' [] ''2024-01-02 03:04:05''
          [(''id'', IntSeries [1, 2, 3]), (''name'', ObjectSeries [PStr ''Ann'', PFloat Nan, PStr ''Bob''])])
      = Inr [''    name TEXT NULL'',
             ''INSERT INTO people (id, name) VALUES (1, 'Ann');'' @ [newline],
             ''INSERT INTO people (id, name) VALUES (2, NULL);'' @ [newline],
             ''INSERT INTO people (id, name) VALUES (3, 'Bob');'' @ [newline]]"
proof -
  let ?s = "ObjectSeries [PStr ''Ann'', PFloat Nan, PStr ''Bob'']"
  have h1: "text_column ?s" by simp
  have h2: "values_of ?s = [PStr ''Ann'', PFloat Nan, PStr ''Bob'']" by simp
  have h3: "length (filter isna [PStr ''Ann'', PFloat Nan, PStr ''Bob'']) = 1" by simp
  have t: "table_name_of ''people'' [] = ''people''" by code_simp
  have i1: "insert_statement ''people'' 1 (PStr ''Ann'') = ''INSERT INTO people (id, name) VALUES (1, 'Ann');'' @ [newline]"
    by code_simp
  have i2: "insert_statement ''people'' 2 (PFloat Nan) = ''INSERT INTO people (id, name) VALUES (2, NULL);'' @ [newline]"
    by code_simp
  have i3: "insert_statement ''people'' 3 (PStr ''Bob'') = ''INSERT INTO people (id, name) VALUES (3, 'Bob');'' @ [newline]"
    by code_simp
  from three_row_table [OF h1 h2 h3, of "''people.csv''" "''people''" "[]" "''2024-01-02 03:04:05''" 1 2 3]
  obtain lines name_type where
    "sql_lines ''people.csv'' ''people'' [] ''2024-01-02 03:04:05'' [(''id'', IntSeries [1, 2, 3]), (''name'', ?s)] = Inr lines"
    "(\<exists>xs. ?s = ObjectSeries xs) \<longrightarrow> name_type = ''TEXT''"
    "lines ! 5 = ''    name '' @ name_type @ '' NULL''"
    "filter (prefix ''INSERT'') lines =
       [insert_statement (table_name_of ''people'' []) 1 (PStr ''Ann''),
        insert_statement (table_name_of ''people'' []) 2 (PFloat Nan),
        insert_statement (table_name_of ''people'' []) 3 (PStr ''Bob'')]"
    by blast
  then show ?thesis using h3 by (simp add: t i1 i2 i3)
qed


text \<open>
  Claim C5. Each of the three fetch steps (columns, constraints, indexes) returns a result
  and never raises, for every schema, table and connection. On a connection that is
  already closed each returns its empty result without a query. When the body of a step
  raises, the step returns its empty result: the empty list, or the constraints with no
  primary keys, no foreign keys and no unique constraints. In particular this is so when
  the cursor cannot be made or the first query fails, and for the constraints also when
  the primary key query succeeds and the foreign key query fails.
\<close>

theorem fetch_steps_fault_tolerant:
  "(\<exists>rows. fst (obter_colunas schema tabela conn) = Inr rows)
   \<and> (\<exists>cs. fst (obter_constraints schema tabela conn) = Inr cs)
   \<and> (\<exists>rows. fst (obter_indices schema tabela conn) = Inr rows)
   \<and> (closed conn \<longrightarrow>
        obter_colunas schema tabela conn = (Inr [], conn)
        \<and> obter_constraints schema tabela conn = (Inr no_constraints, conn)
        \<and> obter_indices schema tabela conn = (Inr [], conn))
   \<and> (fst (obter_colunas_body schema tabela conn) = Inl e1 \<longrightarrow>
        fst (obter_colunas schema tabela conn) = Inr [])
   \<and> (fst (obter_constraints_body schema tabela conn) = Inl e2 \<longrightarrow>
        fst (obter_constraints schema tabela conn) = Inr no_constraints)
   \<and> (fst (obter_indices_body schema tabela conn) = Inl e3 \<longrightarrow>
        fst (obter_indices schema tabela conn) = Inr [])
   \<and> (\<not> closed conn \<and> (cursor_raises conn \<or> replies conn = [] \<or> (\<exists>b rest. replies conn = Raises b # rest)) \<longrightarrow>
        fst (obter_colunas schema tabela conn) = Inr []
        \<and> fst (obter_constraints schema tabela conn) = Inr no_constraints
        \<and> fst (obter_indices schema tabela conn) = Inr [])
   \<and> (\<not> closed conn \<and> (\<exists>pk b rest. replies conn = Returns pk # Raises b # rest) \<longrightarrow>
        fst (obter_constraints schema tabela conn) = Inr no_constraints)"
proof -
  have 1: "\<exists>rows. fst (obter_colunas schema tabela conn) = Inr rows"
    unfolding obter_colunas_def by (rule try_except_returns)
  have 2: "\<exists>cs. fst (obter_constraints schema tabela conn) = Inr cs"
    unfolding obter_constraints_def by (rule try_except_returns)
  have 3: "\<exists>rows. fst (obter_indices schema tabela conn) = Inr rows"
    unfolding obter_indices_def by (rule try_except_returns)
  have 4: "obter_colunas schema tabela conn = (Inr [], conn)
        \<and> obter_constraints schema tabela conn = (Inr no_constraints, conn)
        \<and> obter_indices schema tabela conn = (Inr [], conn)" if "closed conn"
    using that
    by (simp add: obter_colunas_def obter_constraints_def obter_indices_def try_except_def return_def)
  have 5: "fst (obter_colunas schema tabela conn) = Inr []"
    if "fst (obter_colunas_body schema tabela conn) = Inl e1"
  proof (cases "closed conn")
    case True
    then show ?thesis
      by (simp add: obter_colunas_def try_except_def return_def)
  next
    case False
    with that show ?thesis
      unfolding obter_colunas_def by (intro try_except_fails [of _ _ e1]) simp
  qed
  have 6: "fst (obter_constraints schema tabela conn) = Inr no_constraints"
    if "fst (obter_constraints_body schema tabela conn) = Inl e2"
  proof (cases "closed conn")
    case True
    then show ?thesis
      by (simp add: obter_constraints_def try_except_def return_def)
  next
    case False
    with that show ?thesis
      unfolding obter_constraints_def by (intro try_except_fails [of _ _ e2]) simp
  qed
  have 7: "fst (obter_indices schema tabela conn) = Inr []"
    if "fst (obter_indices_body schema tabela conn) = Inl e3"
  proof (cases "closed conn")
    case True
    then show ?thesis
      by (simp add: obter_indices_def try_except_def return_def)
  next
    case False
    with that show ?thesis
      unfolding obter_indices_def by (intro try_except_fails [of _ _ e3]) simp
  qed
  have 8: "fst (obter_colunas schema tabela conn) = Inr []
        \<and> fst (obter_constraints schema tabela conn) = Inr no_constraints
        \<and> fst (obter_indices schema tabela conn) = Inr []"
    if op: "\<not> closed conn"
      and fails: "cursor_raises conn \<or> replies conn = [] \<or> (\<exists>b rest. replies conn = Raises b # rest)"
  proof -
    have a: "fst (obter_colunas_body schema tabela conn) = Inl DatabaseError"
      using fails by (auto simp: colunas_body_result)
    have b: "fst (obter_indices_body schema tabela conn) = Inl DatabaseError"
      using fails by (auto simp: indices_body_result)
    obtain e where c: "fst (obter_constraints_body schema tabela conn) = Inl e"
      using constraints_body_fails [of conn schema tabela] fails by blast
    have "fst (obter_colunas schema tabela conn) = Inr []"
      unfolding obter_colunas_def using a op by (intro try_except_fails [of _ _ DatabaseError]) simp
    moreover have "fst (obter_indices schema tabela conn) = Inr []"
      unfolding obter_indices_def using b op by (intro try_except_fails [of _ _ DatabaseError]) simp
    moreover have "fst (obter_constraints schema tabela conn) = Inr no_constraints"
      unfolding obter_constraints_def using c op by (intro try_except_fails [of _ _ e]) simp
    ultimately show ?thesis by blast
  qed
  have 9: "fst (obter_constraints schema tabela conn) = Inr no_constraints"
    if op: "\<not> closed conn" and fails: "\<exists>pk b rest. replies conn = Returns pk # Raises b # rest"
  proof -
    obtain e where c: "fst (obter_constraints_body schema tabela conn) = Inl e"
      using constraints_body_fails [of conn schema tabela] fails by blast
    show ?thesis
      unfolding obter_constraints_def using c op by (intro try_except_fails [of _ _ e]) simp
  qed
  from 1 2 3 4 5 6 7 8 9 show ?thesis by blast
qed

theorem fetch_steps_fault_tolerant_witness:
  "fst (obter_constraints_body ''public'' ''orders''
         \<lparr>closed = False, cursor_raises = False,
          replies = [Returns [[Text ''id'']], Raises True]\<rparr>) = Inl DatabaseError
   \<and> obter_constraints ''public'' ''orders''
         \<lparr>closed = False, cursor_raises = False,
          replies = [Returns [[Text ''id'']], Raises True]\<rparr>
       = (Inr no_constraints, \<lparr>closed = True, cursor_raises = False, replies = []\<rparr>)
   \<and> closed \<lparr>closed = True, cursor_raises = False, replies = []\<rparr>
   \<and> obter_indices ''public'' ''orders'' \<lparr>closed = True, cursor_raises = False, replies = []\<rparr>
       = (Inr [], \<lparr>closed = True, cursor_raises = False, replies = []\<rparr>)"
proof -
  let ?c = "\<lparr>closed = False, cursor_raises = False, replies = [Returns [[Text ''id'']], Raises True]\<rparr>"
  let ?d = "\<lparr>closed = True, cursor_raises = False, replies = []\<rparr>"
  have b: "obter_constraints_body ''public'' ''orders'' ?c = (Inl DatabaseError, ?d)"
    by (simp add: obter_constraints_body_def bind_def cursor_def execute_fetchall_def
        first_field_def return_def)
  then have "snd (obter_constraints ''public'' ''orders'' ?c) = ?d"
    by (simp add: obter_constraints_def try_except_conn)
  moreover have "fst (obter_constraints ''public'' ''orders'' ?c) = Inr no_constraints"
    using fetch_steps_fault_tolerant [of "''public''" "''orders''" ?c DatabaseError DatabaseError DatabaseError] b
    by simp
  ultimately have "obter_constraints ''public'' ''orders'' ?c = (Inr no_constraints, ?d)"
    by (simp add: prod_eq_iff)
  moreover have "obter_indices ''public'' ''orders'' ?d = (Inr [], ?d)"
    using fetch_steps_fault_tolerant [of "''public''" "''orders''" ?d DatabaseError DatabaseError DatabaseError]
    by simp
  ultimately show ?thesis using b by simp
qed

end
